theory Spec2Isabelle
  imports Complex_Main "HOL-Library.AList" "HOL-Library.Sublist"
begin

section \<open>Clustering-accuracy metrics of baseline/run\_and\_compare.py\<close>

text \<open>
  The three evaluators of \<^verbatim>\<open>baseline/run_and_compare.py\<close> are embedded here:
  \<^verbatim>\<open>accuracy_metrics\<close>, \<^verbatim>\<open>purity_metric\<close> and \<^verbatim>\<open>collapse_pure_clusters\<close>,
  together with the length guard of the batch loop that calls them.

  Conventions of the embedding:
  \<^item> a Python \<^verbatim>\<open>dict\<close> (and a \<^verbatim>\<open>Counter\<close>) is an association list in insertion order;
    storing under an existing key replaces the value in place, storing under a new key
    appends (\<open>AList.update\<close>);
  \<^item> a Python \<^verbatim>\<open>set\<close> is a duplicate-free list (\<open>List.insert\<close>); the code only looks at
    its size and, when the size is 1, at its sole element;
  \<^item> counts and lengths are natural numbers;
  \<^item> the quotients that Python computes with \<^verbatim>\<open>/\<close> are exact rationals: the model
    does not round to binary floating point;
  \<^item> a subscript that Python would reject is the value \<open>Inl IndexError\<close> or
    \<open>Inl KeyError\<close>; the \<^verbatim>\<open>ValueError\<close> of the batch loop is \<open>Inl ValueError\<close>.
\<close>

subsection \<open>Dictionaries, counters, subscripts\<close>

datatype py_error = IndexError | KeyError | ValueError

type_synonym ('k, 'v) dict = "('k \<times> 'v) list"

definition dict_get :: "('k, 'v) dict \<Rightarrow> 'k \<Rightarrow> 'v \<Rightarrow> 'v" where
  "dict_get d k dflt = (case map_of d k of None \<Rightarrow> dflt | Some v \<Rightarrow> v)"

definition dict_subscript :: "('k, 'v) dict \<Rightarrow> 'k \<Rightarrow> py_error + 'v" where
  "dict_subscript d k = (case map_of d k of None \<Rightarrow> Inl KeyError | Some v \<Rightarrow> Inr v)"

definition subscript :: "'a list \<Rightarrow> nat \<Rightarrow> py_error + 'a" where
  "subscript xs i = (if i < length xs then Inr (xs ! i) else Inl IndexError)"

text \<open>A comprehension \<^verbatim>\<open>[f(x) for x in xs]\<close> whose body may raise: the first failure wins.\<close>

fun comprehension :: "('x \<Rightarrow> py_error + 'y) \<Rightarrow> 'x list \<Rightarrow> py_error + 'y list" where
  "comprehension f [] = Inr []"
| "comprehension f (x # xs) =
     (case f x of
        Inl e \<Rightarrow> Inl e
      | Inr y \<Rightarrow> (case comprehension f xs of Inl e \<Rightarrow> Inl e | Inr ys \<Rightarrow> Inr (y # ys)))"

text \<open>A \<^verbatim>\<open>for\<close> loop over a list whose body updates the loop state and may raise.\<close>

fun for_each :: "('x \<Rightarrow> 's \<Rightarrow> py_error + 's) \<Rightarrow> 'x list \<Rightarrow> 's \<Rightarrow> py_error + 's" where
  "for_each body [] s = Inr s"
| "for_each body (x # xs) s =
     (case body x s of Inl e \<Rightarrow> Inl e | Inr s' \<Rightarrow> for_each body xs s')"

text \<open>\<^verbatim>\<open>counts[x] += 1\<close> on a \<^verbatim>\<open>Counter\<close>, where a missing key reads as 0.\<close>

definition Counter_incr :: "'a \<Rightarrow> ('a, nat) dict \<Rightarrow> ('a, nat) dict" where
  "Counter_incr x counts = AList.update x (dict_get counts x 0 + 1) counts"

definition Counter :: "'a list \<Rightarrow> ('a, nat) dict" where
  "Counter xs = fold Counter_incr xs []"

definition dict_values :: "('k, 'v) dict \<Rightarrow> 'v list" where
  "dict_values d = map snd d"

subsection \<open>accuracy\_metrics\<close>

definition comb2 :: "nat \<Rightarrow> nat" where
  "comb2 n = (if n < 2 then 0 else n * (n - 1) div 2)"

text \<open>\<^verbatim>\<open>sum(comb2(c) for c in counts.values())\<close>\<close>

definition sum_comb2 :: "('a, nat) dict \<Rightarrow> nat" where
  "sum_comb2 counts = sum_list (map comb2 (dict_values counts))"

text \<open>\<^verbatim>\<open>for idx, pid in enumerate(pred): idx_by_pred.setdefault(pid, []).append(idx)\<close>\<close>

definition idx_by_pred_add :: "nat \<times> 'b \<Rightarrow> ('b, nat list) dict \<Rightarrow> ('b, nat list) dict" where
  "idx_by_pred_add item d =
     (case item of (idx, pid) \<Rightarrow> AList.update pid (dict_get d pid [] @ [idx]) d)"

definition idx_by_pred :: "'b list \<Rightarrow> ('b, nat list) dict" where
  "idx_by_pred pred = fold idx_by_pred_add (enumerate 0 pred) []"

text \<open>
  The body of the loop over \<^verbatim>\<open>idx_by_pred.items()\<close>; the loop state is the pair
  \<open>(accurate_pairs, accurate_events)\<close>.
\<close>

definition group_body ::
  "'a list \<Rightarrow> ('a, nat) dict \<Rightarrow> 'b \<times> nat list \<Rightarrow> nat \<times> nat \<Rightarrow> py_error + nat \<times> nat" where
  "group_body truth truth_counts item st =
     (case item of (pid, idxs) \<Rightarrow>
      case st of (accurate_pairs, accurate_events) \<Rightarrow>
      case comprehension (subscript truth) idxs of
        Inl e \<Rightarrow> Inl e
      | Inr gts \<Rightarrow>
          let gt_counts = Counter gts;
              accurate_events' =
                (if length gt_counts = 1 then
                   (let gt_id = fst (hd gt_counts) in
                    if length idxs = dict_get truth_counts gt_id 0
                    then accurate_events + length idxs
                    else accurate_events)
                 else accurate_events)
          in Inr (accurate_pairs + sum_comb2 gt_counts, accurate_events'))"

record metrics =
  GA :: rat
  GA_precision :: rat
  GA_recall :: rat
  PA :: rat

text \<open>Lines 72 to 76: the four quotients, each with its guard against a zero denominator.\<close>

definition metrics_of :: "nat \<Rightarrow> nat \<Rightarrow> nat \<Rightarrow> nat \<Rightarrow> nat \<Rightarrow> metrics" where
  "metrics_of real_pairs parsed_pairs accurate_pairs accurate_events n =
     (let precision = (if parsed_pairs = 0 then 0 else of_nat accurate_pairs / of_nat parsed_pairs);
          recall = (if real_pairs = 0 then 0 else of_nat accurate_pairs / of_nat real_pairs);
          f1 = (if precision = 0 \<and> recall = 0 then 0
                else 2 * precision * recall / (precision + recall));
          accuracy = (if n = 0 then 0 else of_nat accurate_events / of_nat n)
      in \<lparr>GA = f1, GA_precision = precision, GA_recall = recall, PA = accuracy\<rparr>)"

definition accuracy_metrics :: "'a list \<Rightarrow> 'b list \<Rightarrow> py_error + metrics" where
  "accuracy_metrics truth pred =
     (let truth_counts = Counter truth;
          real_pairs = sum_comb2 truth_counts;
          pred_counts = Counter pred;
          parsed_pairs = sum_comb2 pred_counts
      in case for_each (group_body truth truth_counts) (idx_by_pred pred) (0, 0) of
           Inl e \<Rightarrow> Inl e
         | Inr (accurate_pairs, accurate_events) \<Rightarrow>
             Inr (metrics_of real_pairs parsed_pairs accurate_pairs accurate_events (length truth)))"

subsection \<open>purity\_metric\<close>

text \<open>\<^verbatim>\<open>counts = base_to_other.setdefault(b, Counter()); counts[o] += 1\<close>\<close>

definition base_to_other_add ::
  "'a \<times> 'b \<Rightarrow> ('a, ('b, nat) dict) dict \<Rightarrow> ('a, ('b, nat) dict) dict" where
  "base_to_other_add item d =
     (case item of (b, ot) \<Rightarrow> AList.update b (Counter_incr ot (dict_get d b [])) d)"

definition base_to_other :: "'a list \<Rightarrow> 'b list \<Rightarrow> ('a, ('b, nat) dict) dict" where
  "base_to_other base_ids other_ids = fold base_to_other_add (zip base_ids other_ids) []"

text \<open>The loop state is the pair \<open>(top_sum, total_sum)\<close>.\<close>

definition purity_body :: "('b, nat) dict \<Rightarrow> nat \<times> nat \<Rightarrow> nat \<times> nat" where
  "purity_body counts st =
     (case st of (top_sum, total_sum) \<Rightarrow>
        let total = sum_list (dict_values counts);
            top = (if counts \<noteq> [] then Max (set (dict_values counts)) else 0)
        in (top_sum + top, total_sum + total))"

definition purity_sums :: "'a list \<Rightarrow> 'b list \<Rightarrow> nat \<times> nat" where
  "purity_sums base_ids other_ids =
     fold purity_body (dict_values (base_to_other base_ids other_ids)) (0, 0)"

definition purity_metric :: "'a list \<Rightarrow> 'b list \<Rightarrow> rat" where
  "purity_metric base_ids other_ids =
     (case purity_sums base_ids other_ids of (top_sum, total_sum) \<Rightarrow>
        if total_sum = 0 then 0 else of_nat top_sum / of_nat total_sum)"

subsection \<open>collapse\_pure\_clusters\<close>

text \<open>\<^verbatim>\<open>s = gt_by_pred.setdefault(p, set()); s.add(t)\<close>\<close>

definition gt_by_pred_add ::
  "'b \<times> 'a \<Rightarrow> ('b, 'a list) dict \<Rightarrow> ('b, 'a list) dict" where
  "gt_by_pred_add item d =
     (case item of (p, t) \<Rightarrow> AList.update p (List.insert t (dict_get d p [])) d)"

definition gt_by_pred :: "'b list \<Rightarrow> 'a list \<Rightarrow> ('b, 'a list) dict" where
  "gt_by_pred pred truth = fold gt_by_pred_add (zip pred truth) []"

text \<open>The f-string \<^verbatim>\<open>f"__PURE__#{only_gt}"\<close> on a string label.\<close>

definition pure_label :: "string \<Rightarrow> string" where
  "pure_label only_gt = ''__PURE__#'' @ only_gt"

text \<open>The body of the loop over \<^verbatim>\<open>pred\<close>; the loop state is \<open>(mapping, pure_mask)\<close>.\<close>

definition collapse_body ::
  "(string, string list) dict \<Rightarrow> string \<Rightarrow> (string, string) dict \<times> bool list
     \<Rightarrow> (string, string) dict \<times> bool list" where
  "collapse_body gt_by p st =
     (case st of (mapping, pure_mask) \<Rightarrow>
        let gts = dict_get gt_by p [] in
        if length gts = 1 then
          (let only_gt = hd gts in
           (AList.update p (pure_label only_gt) mapping, pure_mask @ [True]))
        else (AList.update p p mapping, pure_mask @ [False]))"

definition collapse_pure_clusters :: "string list \<Rightarrow> string list \<Rightarrow> py_error + string list \<times> rat" where
  "collapse_pure_clusters truth pred =
     (case fold (collapse_body (gt_by_pred pred truth)) pred ([], []) of
        (mapping, pure_mask) \<Rightarrow>
          (case comprehension (dict_subscript mapping) pred of
             Inl e \<Rightarrow> Inl e
           | Inr merged_pred \<Rightarrow>
               let pure_coverage =
                     (if length pred = 0 then 0
                      else of_nat (sum_list (map of_bool pure_mask)) / of_nat (length pred))
               in Inr (merged_pred, pure_coverage)))"

subsection \<open>The length guard of the batch loop\<close>

text \<open>
  Lines 223 to 234 of \<^verbatim>\<open>run_all\<close>: the two sequences are compared in length before
  any evaluator is called, and the friendly metrics are those of the collapsed prediction.
\<close>

record report =
  strict :: metrics
  predPure :: rat
  gtPure :: rat
  friendly :: metrics
  pureCoverage :: rat

definition compare_sequences :: "string list \<Rightarrow> string list \<Rightarrow> py_error + report" where
  "compare_sequences truth pred =
     (if length truth \<noteq> length pred then Inl ValueError
      else case accuracy_metrics truth pred of
        Inl e \<Rightarrow> Inl e
      | Inr m \<Rightarrow>
          let pp = purity_metric pred truth;
              gp = purity_metric truth pred
          in case collapse_pure_clusters truth pred of
               Inl e \<Rightarrow> Inl e
             | Inr (friendly_pred, pure_cov) \<Rightarrow>
                 (case accuracy_metrics truth friendly_pred of
                    Inl e \<Rightarrow> Inl e
                  | Inr f \<Rightarrow>
                      Inr \<lparr>strict = m, predPure = pp, gtPure = gp, friendly = f,
                           pureCoverage = pure_cov\<rparr>))"

subsection \<open>Index-level reading of the loops\<close>

text \<open>
  The definitions of this subsection are not code: they say, in terms of positions, what the
  dictionaries built by the loops contain, and the lemmas below prove that reading.
  \<open>cluster pred p\<close> is the list of positions that carry the predicted label \<open>p\<close>;
  \<open>group_pairs\<close> and \<open>group_events\<close> are what one round of the loop over
  \<^verbatim>\<open>idx_by_pred.items()\<close> adds to \<^verbatim>\<open>accurate_pairs\<close> and \<^verbatim>\<open>accurate_events\<close>.
\<close>

definition cluster :: "'b list \<Rightarrow> 'b \<Rightarrow> nat list" where
  "cluster pred p = filter (\<lambda>i. pred ! i = p) [0..<length pred]"

definition group_pairs :: "'a list \<Rightarrow> nat list \<Rightarrow> nat" where
  "group_pairs truth idxs = sum_comb2 (Counter (map ((!) truth) idxs))"

definition group_events :: "'a list \<Rightarrow> nat list \<Rightarrow> nat" where
  "group_events truth idxs =
     (let gt_counts = Counter (map ((!) truth) idxs)
      in if length gt_counts = 1 \<and> length idxs = count_list truth (fst (hd gt_counts))
         then length idxs else 0)"

text \<open>
  \<open>accurate_pairs\<close> and \<open>accurate_events\<close> are the two totals the loop ends with;
  \<open>cell truth pred t p\<close> counts the positions labelled \<open>t\<close> by \<open>truth\<close> and \<open>p\<close> by
  \<open>pred\<close> (one cell of the contingency table of the two labellings).
\<close>

definition accurate_pairs :: "'a list \<Rightarrow> 'b list \<Rightarrow> nat" where
  "accurate_pairs truth pred = (\<Sum>p\<in>set pred. group_pairs truth (cluster pred p))"

definition accurate_events :: "'a list \<Rightarrow> 'b list \<Rightarrow> nat" where
  "accurate_events truth pred = (\<Sum>p\<in>set pred. group_events truth (cluster pred p))"

definition cell :: "'a list \<Rightarrow> 'b list \<Rightarrow> 'a \<Rightarrow> 'b \<Rightarrow> nat" where
  "cell truth pred t p = card {i. i < length pred \<and> truth ! i = t \<and> pred ! i = p}"

text \<open>
  What one round of the loop of \<^verbatim>\<open>purity_metric\<close> adds to \<^verbatim>\<open>top_sum\<close> and to
  \<^verbatim>\<open>total_sum\<close>.
\<close>

definition counts_top :: "('b, nat) dict \<Rightarrow> nat" where
  "counts_top counts = (if counts \<noteq> [] then Max (set (dict_values counts)) else 0)"

definition counts_total :: "('b, nat) dict \<Rightarrow> nat" where
  "counts_total counts = sum_list (dict_values counts)"

text \<open>
  The relabelling of \<^verbatim>\<open>collapse_pure_clusters\<close>, read off the zipped pairs:
  \<open>gts_of truth pred p\<close> lists the distinct ground-truth labels that occur under the
  predicted label \<open>p\<close>, a predicted cluster is pure when there is exactly one, and
  \<open>relabel\<close> is the label that \<^verbatim>\<open>mapping\<close> ends up holding for \<open>p\<close>.
\<close>

definition gts_of :: "'a list \<Rightarrow> 'b list \<Rightarrow> 'b \<Rightarrow> 'a list" where
  "gts_of truth pred p = remdups (map snd (filter (\<lambda>item. fst item = p) (zip pred truth)))"

definition is_pure :: "'a list \<Rightarrow> 'b list \<Rightarrow> 'b \<Rightarrow> bool" where
  "is_pure truth pred p = (length (gts_of truth pred p) = 1)"

definition relabel :: "string list \<Rightarrow> string list \<Rightarrow> string \<Rightarrow> string" where
  "relabel truth pred p =
     (if is_pure truth pred p then pure_label (hd (gts_of truth pred p)) else p)"

text \<open>
  No label that collapsing leaves unchanged (the label of a predicted cluster that is not
  pure) is equal to a merged label that collapsing generates.
\<close>

definition collision_free :: "string list \<Rightarrow> string list \<Rightarrow> bool" where
  "collision_free truth pred =
     (\<forall>p\<in>set pred. \<forall>m\<in>set pred.
        is_pure truth pred p \<and> \<not> is_pure truth pred m \<longrightarrow> relabel truth pred p \<noteq> m)"

text \<open>
  A predicted cluster counts for \<^verbatim>\<open>accurate_events\<close> when all its positions carry one
  ground-truth label and it is as large as that ground-truth cluster.
\<close>

definition exact :: "'a list \<Rightarrow> 'b list \<Rightarrow> 'b \<Rightarrow> bool" where
  "exact truth pred p =
     (\<exists>t. (\<forall>i<length pred. pred ! i = p \<longrightarrow> truth ! i = t)
          \<and> count_list pred p = count_list truth t)"

section \<open>Properties\<close>

subsection \<open>What the dictionaries contain\<close>

lemma dict_values_keys:
  "distinct (map fst d) \<Longrightarrow> dict_values d = map (\<lambda>k. the (map_of d k)) (map fst d)"
proof (induction d)
  case Nil
  show ?case by (simp add: dict_values_def)
next
  case (Cons kv d)
  obtain k v where kv: "kv = (k, v)" by (cases kv)
  from Cons.prems kv have nk: "k \<notin> fst ` set d" and dd: "distinct (map fst d)" by auto
  have "map snd d = map (\<lambda>k'. the (map_of d k')) (map fst d)"
    using Cons.IH [OF dd] by (simp add: dict_values_def)
  moreover have "map (\<lambda>k'. the (map_of d k')) (map fst d)
      = map (\<lambda>k'. the (map_of ((k, v) # d) k')) (map fst d)"
    using nk by (intro map_cong) auto
  ultimately show ?case by (simp add: dict_values_def kv)
qed

lemma sum_list_dict_values:
  assumes "distinct (map fst d)"
  shows "sum_list (map f (dict_values d)) = (\<Sum>k\<in>set (map fst d). f (the (map_of d k)))"
proof -
  have "sum_list (map f (dict_values d)) = sum_list (map (\<lambda>k. f (the (map_of d k))) (map fst d))"
    by (simp add: dict_values_keys [OF assms] comp_def)
  also have "\<dots> = (\<Sum>k\<in>set (map fst d). f (the (map_of d k)))"
    using assms by (rule sum_list_distinct_conv_sum_set)
  finally show ?thesis .
qed

lemma Counter_snoc: "Counter (xs @ [x]) = Counter_incr x (Counter xs)"
  by (simp add: Counter_def)

lemma map_of_Counter:
  "map_of (Counter xs) k = (if k \<in> set xs then Some (count_list xs k) else None)"
proof (induction xs arbitrary: k rule: rev_induct)
  case Nil
  show ?case by (simp add: Counter_def)
next
  case (snoc x xs)
  have "dict_get (Counter xs) x 0 = count_list xs x"
    by (simp add: dict_get_def snoc [of x] count_list_0_iff)
  then show ?case
    by (simp add: Counter_snoc Counter_incr_def update_conv' snoc [of k])
qed

lemma distinct_Counter: "distinct (map fst (Counter xs))"
  by (induction xs rule: rev_induct)
     (simp_all add: Counter_def Counter_incr_def distinct_update)

lemma keys_Counter: "set (map fst (Counter xs)) = set xs"
proof -
  have "fst ` set (Counter xs) = dom (map_of (Counter xs))"
    by (simp add: dom_map_of_conv_image_fst)
  also have "\<dots> = set xs"
    by (auto simp: map_of_Counter dom_def)
  finally show ?thesis by simp
qed

lemma dict_get_Counter: "dict_get (Counter xs) k 0 = count_list xs k"
  by (simp add: dict_get_def map_of_Counter)

lemma sum_comb2_Counter: "sum_comb2 (Counter xs) = (\<Sum>k\<in>set xs. comb2 (count_list xs k))"
proof -
  have "sum_comb2 (Counter xs) = (\<Sum>k\<in>set (map fst (Counter xs)). comb2 (the (map_of (Counter xs) k)))"
    unfolding sum_comb2_def by (rule sum_list_dict_values [OF distinct_Counter])
  also have "\<dots> = (\<Sum>k\<in>set xs. comb2 (count_list xs k))"
    unfolding keys_Counter by (rule sum.cong) (simp_all add: map_of_Counter)
  finally show ?thesis .
qed

lemma length_Counter: "length (Counter xs) = card (set xs)"
proof -
  have "length (Counter xs) = length (map fst (Counter xs))" by simp
  also have "\<dots> = card (set (map fst (Counter xs)))"
    using distinct_Counter [of xs] by (simp only: distinct_card)
  finally show ?thesis by (simp only: keys_Counter)
qed

lemma hd_Counter: "xs \<noteq> [] \<Longrightarrow> fst (hd (Counter xs)) \<in> set xs"
proof -
  assume "xs \<noteq> []"
  then have "Counter xs \<noteq> []" using keys_Counter [of xs] by auto
  then have "fst (hd (Counter xs)) \<in> set (map fst (Counter xs))"
    by (cases "Counter xs") auto
  then show ?thesis by (simp only: keys_Counter)
qed

lemma idx_by_pred_snoc:
  "idx_by_pred (xs @ [x]) = idx_by_pred_add (length xs, x) (idx_by_pred xs)"
  by (simp add: idx_by_pred_def enumerate_append_eq)

lemma cluster_snoc: "cluster (xs @ [x]) q = cluster xs q @ (if x = q then [length xs] else [])"
proof -
  have "filter (\<lambda>i. (xs @ [x]) ! i = q) [0..<length xs] = filter (\<lambda>i. xs ! i = q) [0..<length xs]"
    by (rule filter_cong) (simp_all add: nth_append)
  then show ?thesis by (simp add: cluster_def)
qed

lemma cluster_notin: "p \<notin> set pred \<Longrightarrow> cluster pred p = []"
  by (auto simp: cluster_def filter_empty_conv)

lemma map_of_idx_by_pred:
  "map_of (idx_by_pred pred) p = (if p \<in> set pred then Some (cluster pred p) else None)"
proof (induction pred arbitrary: p rule: rev_induct)
  case Nil
  show ?case by (simp add: idx_by_pred_def)
next
  case (snoc x xs)
  have "dict_get (idx_by_pred xs) x [] = cluster xs x"
    by (simp add: dict_get_def snoc [of x] cluster_notin)
  then show ?case
    by (simp add: idx_by_pred_snoc idx_by_pred_add_def update_conv' snoc [of p] cluster_snoc)
qed

lemma distinct_idx_by_pred: "distinct (map fst (idx_by_pred pred))"
  by (induction pred rule: rev_induct)
     (simp_all add: idx_by_pred_snoc idx_by_pred_add_def distinct_update, simp add: idx_by_pred_def)

lemma keys_idx_by_pred: "set (map fst (idx_by_pred pred)) = set pred"
proof -
  have "fst ` set (idx_by_pred pred) = dom (map_of (idx_by_pred pred))"
    by (simp add: dom_map_of_conv_image_fst)
  also have "\<dots> = set pred"
    by (auto simp: map_of_idx_by_pred dom_def)
  finally show ?thesis by simp
qed

lemma sum_over_idx_by_pred:
  "sum_list (map (\<lambda>item. g (snd item)) (idx_by_pred pred)) = (\<Sum>p\<in>set pred. g (cluster pred p))"
proof -
  have "sum_list (map (\<lambda>item. g (snd item)) (idx_by_pred pred))
      = sum_list (map g (dict_values (idx_by_pred pred)))"
    by (simp add: dict_values_def comp_def)
  also have "\<dots> = (\<Sum>p\<in>set (map fst (idx_by_pred pred)). g (the (map_of (idx_by_pred pred) p)))"
    by (rule sum_list_dict_values [OF distinct_idx_by_pred])
  also have "\<dots> = (\<Sum>p\<in>set pred. g (cluster pred p))"
    unfolding keys_idx_by_pred by (rule sum.cong) (simp_all add: map_of_idx_by_pred)
  finally show ?thesis .
qed

lemma comprehension_subscript:
  "\<forall>i\<in>set idxs. i < length xs \<Longrightarrow> comprehension (subscript xs) idxs = Inr (map ((!) xs) idxs)"
  by (induction idxs) (simp_all add: subscript_def)

lemma comprehension_subscript_fail:
  "\<exists>i\<in>set idxs. \<not> i < length xs \<Longrightarrow> comprehension (subscript xs) idxs = Inl IndexError"
proof (induction idxs)
  case Nil
  then show ?case by simp
next
  case (Cons i idxs)
  show ?case
  proof (cases "i < length xs")
    case True
    with Cons.prems have "\<exists>j\<in>set idxs. \<not> j < length xs" by auto
    then have "comprehension (subscript xs) idxs = Inl IndexError" by (rule Cons.IH)
    moreover from True have "subscript xs i = Inr (xs ! i)" by (simp add: subscript_def)
    ultimately show ?thesis by simp
  next
    case False
    then show ?thesis by (simp add: subscript_def)
  qed
qed

lemma comprehension_subscript_error:
  assumes "comprehension (subscript xs) idxs = Inl e"
  shows "e = IndexError"
proof (cases "\<forall>i\<in>set idxs. i < length xs")
  case True
  then show ?thesis using assms by (simp add: comprehension_subscript)
next
  case False
  then have "comprehension (subscript xs) idxs = Inl IndexError"
    by (intro comprehension_subscript_fail) simp
  with assms show ?thesis by simp
qed

lemma group_body_error: "group_body truth tc item st = Inl e \<Longrightarrow> e = IndexError"
  by (cases item; cases st)
     (auto simp: group_body_def Let_def split: sum.splits dest: comprehension_subscript_error)

lemma group_body_ok:
  "\<forall>i\<in>set idxs. i < length truth \<Longrightarrow>
   group_body truth (Counter truth) (p, idxs) (a, e)
     = Inr (a + group_pairs truth idxs, e + group_events truth idxs)"
  by (simp add: group_body_def comprehension_subscript group_pairs_def group_events_def
        Let_def dict_get_Counter)

lemma group_body_fail:
  "\<exists>i\<in>set idxs. \<not> i < length truth \<Longrightarrow>
   group_body truth tc (p, idxs) st = Inl IndexError"
  by (cases st) (simp add: group_body_def comprehension_subscript_fail)

lemma for_each_groups:
  "\<forall>item\<in>set items. \<forall>i\<in>set (snd item). i < length truth \<Longrightarrow>
   for_each (group_body truth (Counter truth)) items (a, e)
     = Inr (a + sum_list (map (\<lambda>item. group_pairs truth (snd item)) items),
            e + sum_list (map (\<lambda>item. group_events truth (snd item)) items))"
proof (induction items arbitrary: a e)
  case Nil
  show ?case by simp
next
  case (Cons item items)
  obtain p idxs where item: "item = (p, idxs)" by (cases item)
  from Cons.prems item have ok: "\<forall>i\<in>set idxs. i < length truth" by simp
  from Cons.prems have rest: "\<forall>item\<in>set items. \<forall>i\<in>set (snd item). i < length truth" by simp
  show ?case
    by (simp add: item group_body_ok [OF ok] Cons.IH [OF rest] add.assoc)
qed

lemma for_each_groups_fail:
  "\<exists>item\<in>set items. \<exists>i\<in>set (snd item). \<not> i < length truth \<Longrightarrow>
   for_each (group_body truth tc) items st = Inl IndexError"
proof (induction items arbitrary: st)
  case Nil
  then show ?case by simp
next
  case (Cons item items)
  obtain p idxs where item: "item = (p, idxs)" by (cases item)
  show ?case
  proof (cases "\<forall>i\<in>set idxs. i < length truth")
    case False
    then have "group_body truth tc (p, idxs) st = Inl IndexError"
      by (intro group_body_fail) simp
    then show ?thesis by (simp add: item)
  next
    case True
    with Cons.prems item
    have "\<exists>item\<in>set items. \<exists>i\<in>set (snd item). \<not> i < length truth" by auto
    then have "\<And>s. for_each (group_body truth tc) items s = Inl IndexError"
      by (rule Cons.IH)
    then show ?thesis
      by (auto simp: item split: sum.splits dest: group_body_error)
  qed
qed

lemma cluster_bound: "i \<in> set (cluster pred p) \<Longrightarrow> i < length pred"
  by (simp add: cluster_def)

lemma loop_result:
  assumes "length pred \<le> length truth"
  shows "for_each (group_body truth (Counter truth)) (idx_by_pred pred) (0, 0)
     = Inr (\<Sum>p\<in>set pred. group_pairs truth (cluster pred p),
            \<Sum>p\<in>set pred. group_events truth (cluster pred p))"
proof -
  have "\<forall>item\<in>set (idx_by_pred pred). \<forall>i\<in>set (snd item). i < length truth"
  proof (intro ballI)
    fix item i assume mem: "item \<in> set (idx_by_pred pred)" and i: "i \<in> set (snd item)"
    from mem have "(fst item, snd item) \<in> set (idx_by_pred pred)" by simp
    then have "map_of (idx_by_pred pred) (fst item) = Some (snd item)"
      by (simp only: map_of_eq_Some_iff [OF distinct_idx_by_pred])
    then have "snd item = cluster pred (fst item)"
      by (simp add: map_of_idx_by_pred split: if_splits)
    with i have "i < length pred" by (simp add: cluster_bound)
    with assms show "i < length truth" by simp
  qed
  then show ?thesis
    by (simp add: for_each_groups sum_over_idx_by_pred)
qed

lemma loop_fails:
  assumes "length truth < length pred"
  shows "for_each (group_body truth tc) (idx_by_pred pred) st = Inl IndexError"
proof -
  let ?p = "pred ! length truth"
  have mem: "?p \<in> set pred" using assms by simp
  then have "map_of (idx_by_pred pred) ?p = Some (cluster pred ?p)"
    by (simp add: map_of_idx_by_pred)
  then have "(?p, cluster pred ?p) \<in> set (idx_by_pred pred)" by (rule map_of_SomeD)
  moreover have "length truth \<in> set (cluster pred ?p)"
    using assms by (simp add: cluster_def)
  ultimately have "\<exists>item\<in>set (idx_by_pred pred). \<exists>i\<in>set (snd item). \<not> i < length truth"
    by force
  then show ?thesis by (rule for_each_groups_fail)
qed

lemma comb2_0 [simp]: "comb2 0 = 0"
  by (simp add: comb2_def)

lemma comb2_Suc: "comb2 (Suc n) = comb2 n + n"
proof (cases n)
  case 0
  then show ?thesis by (simp add: comb2_def)
next
  case (Suc m)
  have "Suc (Suc m) * Suc m = Suc m * m + 2 * Suc m" by simp
  then have "Suc (Suc m) * Suc m div 2 = Suc m * m div 2 + Suc m"
    by (simp only: div_mult_self2 [of 2, symmetric]) simp
  then show ?thesis by (simp add: comb2_def Suc)
qed

lemma comb2_add: "comb2 a + comb2 b \<le> comb2 (a + b)"
  by (induction b) (simp_all add: comb2_Suc)

lemma comb2_sum:
  "finite T \<Longrightarrow> (\<Sum>t\<in>T. comb2 (f t)) \<le> comb2 (\<Sum>t\<in>T. f t)"
proof (induction T rule: finite_induct)
  case empty
  show ?case by simp
next
  case (insert x F)
  have "comb2 (f x) + (\<Sum>t\<in>F. comb2 (f t)) \<le> comb2 (f x) + comb2 (\<Sum>t\<in>F. f t)"
    using insert.IH by simp
  also have "\<dots> \<le> comb2 (f x + (\<Sum>t\<in>F. f t))" by (rule comb2_add)
  finally show ?case using insert.hyps by simp
qed

lemma length_cluster: "length (cluster pred p) = count_list pred p"
  by (induction pred rule: rev_induct) (simp_all add: cluster_snoc, simp add: cluster_def)

lemma length_filter_upt: "length (filter P [0..<n]) = card {i. i < n \<and> P i}"
proof -
  have "card (set (filter P [0..<n])) = length (filter P [0..<n])"
    by (rule distinct_card) simp
  moreover have "set (filter P [0..<n]) = {i. i < n \<and> P i}" by auto
  ultimately show ?thesis by simp
qed

lemma count_list_map_filter: "count_list (map f xs) t = length (filter (\<lambda>x. f x = t) xs)"
  by (induction xs) simp_all

lemma count_gts: "count_list (map ((!) truth) (cluster pred p)) t = cell truth pred t p"
proof -
  have "{i. i < length pred \<and> pred ! i = p \<and> truth ! i = t}
      = {i. i < length pred \<and> truth ! i = t \<and> pred ! i = p}" by auto
  then show ?thesis
    by (simp add: count_list_map_filter cluster_def length_filter_upt cell_def)
qed

lemma group_pairs_le: "group_pairs truth idxs \<le> comb2 (length idxs)"
proof -
  let ?gts = "map ((!) truth) idxs"
  have "group_pairs truth idxs = (\<Sum>t\<in>set ?gts. comb2 (count_list ?gts t))"
    by (simp only: group_pairs_def sum_comb2_Counter)
  also have "\<dots> \<le> comb2 (\<Sum>t\<in>set ?gts. count_list ?gts t)"
    by (rule comb2_sum) simp
  also have "(\<Sum>t\<in>set ?gts. count_list ?gts t) = length ?gts"
    by (rule sum_count_set) simp_all
  finally show ?thesis by simp
qed

lemma group_events_le: "group_events truth idxs \<le> length idxs"
  by (simp add: group_events_def Let_def)

lemma accurate_pairs_le_parsed: "accurate_pairs truth pred \<le> sum_comb2 (Counter pred)"
proof -
  have "accurate_pairs truth pred \<le> (\<Sum>p\<in>set pred. comb2 (length (cluster pred p)))"
    unfolding accurate_pairs_def by (rule sum_mono) (rule group_pairs_le)
  then show ?thesis by (simp only: length_cluster sum_comb2_Counter)
qed

lemma accurate_events_le: "accurate_events truth pred \<le> length pred"
proof -
  have "accurate_events truth pred \<le> (\<Sum>p\<in>set pred. length (cluster pred p))"
    unfolding accurate_events_def by (rule sum_mono) (rule group_events_le)
  also have "\<dots> = (\<Sum>p\<in>set pred. count_list pred p)" by (simp only: length_cluster)
  also have "\<dots> = length pred" by (rule sum_count_set) simp_all
  finally show ?thesis .
qed

lemma group_pairs_cell:
  assumes "finite T" and "set (map ((!) truth) (cluster pred p)) \<subseteq> T"
  shows "group_pairs truth (cluster pred p) = (\<Sum>t\<in>T. comb2 (cell truth pred t p))"
proof -
  let ?gts = "map ((!) truth) (cluster pred p)"
  have "group_pairs truth (cluster pred p) = (\<Sum>t\<in>set ?gts. comb2 (count_list ?gts t))"
    by (simp only: group_pairs_def sum_comb2_Counter)
  also have "\<dots> = (\<Sum>t\<in>T. comb2 (count_list ?gts t))"
    using assms by (intro sum.mono_neutral_left) auto
  finally show ?thesis by (simp only: count_gts)
qed

lemma gts_subset:
  assumes "length pred \<le> length truth"
  shows "set (map ((!) truth) (cluster pred p)) \<subseteq> set truth"
proof -
  have "\<And>i. i \<in> set (cluster pred p) \<Longrightarrow> truth ! i \<in> set truth"
    using assms by (simp add: cluster_def)
  then show ?thesis by auto
qed

lemma accurate_pairs_cells:
  assumes "length pred \<le> length truth"
  shows "accurate_pairs truth pred = (\<Sum>p\<in>set pred. \<Sum>t\<in>set truth. comb2 (cell truth pred t p))"
  unfolding accurate_pairs_def
  by (rule sum.cong [OF refl]) (rule group_pairs_cell [OF _ gts_subset [OF assms]], simp)

lemma cell_commute: "length truth = length pred \<Longrightarrow> cell pred truth p t = cell truth pred t p"
proof -
  assume len: "length truth = length pred"
  have "{i. i < length truth \<and> pred ! i = p \<and> truth ! i = t}
      = {i. i < length pred \<and> truth ! i = t \<and> pred ! i = p}"
    using len by auto
  then show ?thesis by (simp add: cell_def)
qed

lemma accurate_pairs_sym:
  assumes "length truth = length pred"
  shows "accurate_pairs pred truth = accurate_pairs truth pred"
proof -
  have "accurate_pairs pred truth = (\<Sum>t\<in>set truth. \<Sum>p\<in>set pred. comb2 (cell pred truth p t))"
    using assms by (simp add: accurate_pairs_cells)
  also have "\<dots> = (\<Sum>t\<in>set truth. \<Sum>p\<in>set pred. comb2 (cell truth pred t p))"
    by (simp only: cell_commute [OF assms])
  also have "\<dots> = (\<Sum>p\<in>set pred. \<Sum>t\<in>set truth. comb2 (cell truth pred t p))"
    by (rule sum.swap)
  also have "\<dots> = accurate_pairs truth pred"
    using assms by (simp add: accurate_pairs_cells)
  finally show ?thesis .
qed

lemma accurate_pairs_le_real:
  assumes "length truth = length pred"
  shows "accurate_pairs truth pred \<le> sum_comb2 (Counter truth)"
  using accurate_pairs_le_parsed [of pred truth] by (simp only: accurate_pairs_sym [OF assms])

lemma accuracy_metrics_eq:
  assumes "length pred \<le> length truth"
  shows "accuracy_metrics truth pred
     = Inr (metrics_of (sum_comb2 (Counter truth)) (sum_comb2 (Counter pred))
              (accurate_pairs truth pred) (accurate_events truth pred) (length truth))"
  by (simp add: accuracy_metrics_def Let_def loop_result [OF assms]
        accurate_pairs_def accurate_events_def)

lemma accuracy_metrics_fail:
  assumes "length truth < length pred"
  shows "accuracy_metrics truth pred = Inl IndexError"
  by (simp add: accuracy_metrics_def Let_def loop_fails [OF assms])

lemma metrics_of_sel:
  "GA_precision (metrics_of r p a e n) = (if p = 0 then 0 else of_nat a / of_nat p)"
  "GA_recall (metrics_of r p a e n) = (if r = 0 then 0 else of_nat a / of_nat r)"
  "PA (metrics_of r p a e n) = (if n = 0 then 0 else of_nat e / of_nat n)"
  "GA (metrics_of r p a e n) =
     (if GA_precision (metrics_of r p a e n) = 0 \<and> GA_recall (metrics_of r p a e n) = 0 then 0
      else 2 * GA_precision (metrics_of r p a e n) * GA_recall (metrics_of r p a e n)
           / (GA_precision (metrics_of r p a e n) + GA_recall (metrics_of r p a e n)))"
  by (simp_all add: metrics_of_def Let_def)

lemma ratio_bounds:
  fixes a b :: nat
  assumes "a \<le> b"
  shows "0 \<le> (if b = 0 then 0 else of_nat a / of_nat b :: rat)"
    and "(if b = 0 then 0 else of_nat a / of_nat b :: rat) \<le> 1"
  using assms by simp_all

lemma f1_bounds:
  fixes P R :: rat
  assumes "0 \<le> P" "P \<le> 1" "0 \<le> R" "R \<le> 1"
  shows "0 \<le> (if P = 0 \<and> R = 0 then 0 else 2 * P * R / (P + R))"
    and "(if P = 0 \<and> R = 0 then 0 else 2 * P * R / (P + R)) \<le> 1"
proof -
  show "0 \<le> (if P = 0 \<and> R = 0 then 0 else 2 * P * R / (P + R))"
    using assms by simp
  have "P * R \<le> P * 1" using assms by (intro mult_left_mono) simp_all
  moreover have "P * R \<le> 1 * R" using assms by (intro mult_right_mono) simp_all
  ultimately have le: "2 * P * R \<le> P + R" by simp
  show "(if P = 0 \<and> R = 0 then 0 else 2 * P * R / (P + R)) \<le> 1"
  proof (cases "P = 0 \<and> R = 0")
    case True
    then show ?thesis by simp
  next
    case False
    with assms have "0 < P + R" by (cases "P = 0") (simp_all add: add_nonneg_pos add_pos_nonneg)
    with le False show ?thesis by (simp add: divide_le_eq_1_pos)
  qed
qed

lemma metrics_of_bounds:
  assumes "a \<le> p" "a \<le> r" "e \<le> n"
  shows "0 \<le> GA_precision (metrics_of r p a e n) \<and> GA_precision (metrics_of r p a e n) \<le> 1"
    and "0 \<le> GA_recall (metrics_of r p a e n) \<and> GA_recall (metrics_of r p a e n) \<le> 1"
    and "0 \<le> PA (metrics_of r p a e n) \<and> PA (metrics_of r p a e n) \<le> 1"
    and "0 \<le> GA (metrics_of r p a e n) \<and> GA (metrics_of r p a e n) \<le> 1"
proof -
  show P: "0 \<le> GA_precision (metrics_of r p a e n) \<and> GA_precision (metrics_of r p a e n) \<le> 1"
    unfolding metrics_of_sel using ratio_bounds [OF assms(1)] by blast
  show R: "0 \<le> GA_recall (metrics_of r p a e n) \<and> GA_recall (metrics_of r p a e n) \<le> 1"
    unfolding metrics_of_sel(2) using ratio_bounds [OF assms(2)] by blast
  show "0 \<le> PA (metrics_of r p a e n) \<and> PA (metrics_of r p a e n) \<le> 1"
    unfolding metrics_of_sel(3) using ratio_bounds [OF assms(3)] by blast
  show "0 \<le> GA (metrics_of r p a e n) \<and> GA (metrics_of r p a e n) \<le> 1"
    unfolding metrics_of_sel(4) using f1_bounds P R by blast
qed

lemma Counter_replicate: "Counter (replicate n p) = (if n = 0 then [] else [(p, n)])"
proof (induction n)
  case 0
  show ?case by (simp add: Counter_def)
next
  case (Suc n)
  have "Counter (replicate (Suc n) p) = Counter_incr p (Counter (replicate n p))"
    by (simp only: replicate_Suc replicate_append_same [symmetric] Counter_snoc)
  then show ?case by (simp add: Suc Counter_incr_def dict_get_def)
qed

lemma gts_self: "map ((!) x) (cluster x p) = replicate (count_list x p) p"
proof -
  have "map ((!) x) (cluster x p) = map (\<lambda>i. p) (cluster x p)"
    by (rule map_cong) (simp_all add: cluster_def)
  then show ?thesis by (simp add: map_replicate_const length_cluster)
qed

lemma group_pairs_self: "group_pairs x (cluster x p) = comb2 (count_list x p)"
  by (simp add: group_pairs_def gts_self Counter_replicate sum_comb2_def dict_values_def)

lemma group_events_self: "group_events x (cluster x p) = count_list x p"
  by (simp add: group_events_def gts_self Counter_replicate length_cluster)

lemma accurate_pairs_self: "accurate_pairs x x = sum_comb2 (Counter x)"
  by (simp add: accurate_pairs_def group_pairs_self sum_comb2_Counter)

lemma accurate_events_self: "accurate_events x x = length x"
proof -
  have "accurate_events x x = (\<Sum>p\<in>set x. count_list x p)"
    by (simp add: accurate_events_def group_events_self)
  also have "\<dots> = length x" by (rule sum_count_set) simp_all
  finally show ?thesis .
qed

lemma distinct_count_list: "distinct xs \<longleftrightarrow> (\<forall>k. count_list xs k \<le> 1)"
proof (induction xs)
  case Nil
  show ?case by simp
next
  case (Cons a xs)
  show ?case
  proof
    assume "distinct (a # xs)"
    with Cons.IH show "\<forall>k. count_list (a # xs) k \<le> 1" by simp
  next
    assume h: "\<forall>k. count_list (a # xs) k \<le> 1"
    from h [rule_format, of a] have "count_list xs a = 0" by simp
    then have "a \<notin> set xs" by (simp add: count_list_0_iff)
    moreover have "\<forall>k. count_list xs k \<le> 1"
    proof
      fix k show "count_list xs k \<le> 1" using h [rule_format, of k] by (simp split: if_splits)
    qed
    ultimately show "distinct (a # xs)" using Cons.IH by simp
  qed
qed

lemma comb2_eq_0: "comb2 n = 0 \<longleftrightarrow> n \<le> 1"
proof (cases n)
  case 0
  then show ?thesis by simp
next
  case (Suc m)
  then show ?thesis by (cases m) (simp_all add: comb2_Suc)
qed

lemma pairs_eq_0: "sum_comb2 (Counter xs) = 0 \<longleftrightarrow> distinct xs"
proof -
  have "sum_comb2 (Counter xs) = 0 \<longleftrightarrow> (\<forall>k\<in>set xs. count_list xs k \<le> 1)"
    by (simp add: sum_comb2_Counter comb2_eq_0)
  also have "\<dots> \<longleftrightarrow> (\<forall>k. count_list xs k \<le> 1)"
    by (metis count_notin zero_le)
  finally show ?thesis by (simp only: distinct_count_list)
qed

lemma accuracy_metrics_self:
  "accuracy_metrics x x
     = Inr (metrics_of (sum_comb2 (Counter x)) (sum_comb2 (Counter x)) (sum_comb2 (Counter x))
              (length x) (length x))"
  by (simp add: accuracy_metrics_eq accurate_pairs_self accurate_events_self)

lemma fold_purity_body:
  "fold purity_body cs (a, b)
     = (a + sum_list (map counts_top cs), b + sum_list (map counts_total cs))"
  by (induction cs arbitrary: a b)
     (simp_all add: purity_body_def counts_top_def counts_total_def Let_def add.assoc)

lemma counts_top_le_total: "counts_top c \<le> counts_total c"
proof (cases "c = []")
  case True
  then show ?thesis by (simp add: counts_top_def)
next
  case False
  then have "Max (set (dict_values c)) \<in> set (dict_values c)"
    by (intro Max_in) (simp_all add: dict_values_def)
  then have "Max (set (dict_values c)) \<le> sum_list (dict_values c)"
    by (simp add: member_le_sum_list)
  with False show ?thesis by (simp add: counts_top_def counts_total_def)
qed

lemma purity_sums_le: "fst (purity_sums base_ids other_ids) \<le> snd (purity_sums base_ids other_ids)"
  unfolding purity_sums_def fold_purity_body
  by (simp add: sum_list_mono counts_top_le_total)

lemma purity_metric_bounds:
  "0 \<le> purity_metric base_ids other_ids \<and> purity_metric base_ids other_ids \<le> 1"
proof -
  obtain top_sum total_sum where s: "purity_sums base_ids other_ids = (top_sum, total_sum)"
    by (cases "purity_sums base_ids other_ids")
  with purity_sums_le [of base_ids other_ids] have "top_sum \<le> total_sum" by simp
  then show ?thesis by (simp add: purity_metric_def s)
qed

lemma purity_metric_truncates:
  "purity_metric base_ids other_ids
     = purity_metric (take (min (length base_ids) (length other_ids)) base_ids)
                     (take (min (length base_ids) (length other_ids)) other_ids)"
proof -
  have "zip (take (min (length base_ids) (length other_ids)) base_ids)
            (take (min (length base_ids) (length other_ids)) other_ids) = zip base_ids other_ids"
    by (simp add: take_zip [symmetric])
  then show ?thesis by (simp add: purity_metric_def purity_sums_def base_to_other_def)
qed

lemma base_to_other_self_snoc:
  "base_to_other (xs @ [x]) (xs @ [x]) = base_to_other_add (x, x) (base_to_other xs xs)"
  by (simp add: base_to_other_def)

lemma map_of_base_to_other_self:
  "map_of (base_to_other a a) b = (if b \<in> set a then Some [(b, count_list a b)] else None)"
proof (induction a arbitrary: b rule: rev_induct)
  case Nil
  show ?case by (simp add: base_to_other_def)
next
  case (snoc x xs)
  have "Counter_incr x (dict_get (base_to_other xs xs) x []) = [(x, count_list xs x + 1)]"
    by (simp add: dict_get_def snoc [of x] Counter_incr_def)
  then show ?case
    by (simp add: base_to_other_self_snoc base_to_other_add_def update_conv' snoc [of b])
qed

lemma distinct_base_to_other:
  "distinct (map fst d) \<Longrightarrow> distinct (map fst (fold base_to_other_add ps d))"
proof (induction ps arbitrary: d)
  case Nil
  then show ?case by simp
next
  case (Cons item ps)
  from Cons.prems have "distinct (map fst (base_to_other_add item d))"
    by (cases item) (simp add: base_to_other_add_def distinct_update)
  then show ?case by (simp add: Cons.IH)
qed

lemma keys_base_to_other_self: "set (map fst (base_to_other a a)) = set a"
proof -
  have "fst ` set (base_to_other a a) = dom (map_of (base_to_other a a))"
    by (simp add: dom_map_of_conv_image_fst)
  also have "\<dots> = set a"
    by (auto simp: map_of_base_to_other_self dom_def)
  finally show ?thesis by simp
qed

lemma purity_sums_self: "purity_sums a a = (length a, length a)"
proof -
  let ?d = "base_to_other a a"
  have d: "distinct (map fst ?d)"
    by (simp add: base_to_other_def distinct_base_to_other)
  have cnt: "(\<Sum>b\<in>set a. count_list a b) = length a"
    by (rule sum_count_set) simp_all
  have "sum_list (map counts_top (dict_values ?d)) = (\<Sum>b\<in>set (map fst ?d). counts_top (the (map_of ?d b)))"
    by (rule sum_list_dict_values [OF d])
  also have "\<dots> = (\<Sum>b\<in>set a. count_list a b)"
    unfolding keys_base_to_other_self
    by (rule sum.cong) (simp_all add: map_of_base_to_other_self counts_top_def dict_values_def)
  finally have top: "sum_list (map counts_top (dict_values ?d)) = length a"
    by (simp only: cnt)
  have "sum_list (map counts_total (dict_values ?d)) = (\<Sum>b\<in>set (map fst ?d). counts_total (the (map_of ?d b)))"
    by (rule sum_list_dict_values [OF d])
  also have "\<dots> = (\<Sum>b\<in>set a. count_list a b)"
    unfolding keys_base_to_other_self
    by (rule sum.cong) (simp_all add: map_of_base_to_other_self counts_total_def dict_values_def)
  finally have total: "sum_list (map counts_total (dict_values ?d)) = length a"
    by (simp only: cnt)
  show ?thesis by (simp add: purity_sums_def fold_purity_body top total)
qed

lemma purity_metric_self: "purity_metric a a = (if a = [] then 0 else 1)"
  by (simp add: purity_metric_def purity_sums_self)

lemma dict_get_update:
  "dict_get (AList.update k v d) k' dflt = (if k' = k then v else dict_get d k' dflt)"
  by (simp add: dict_get_def update_conv')

lemma gt_by_pred_fold:
  "set (dict_get (fold gt_by_pred_add ps []) p []) = {t. (p, t) \<in> set ps}
   \<and> distinct (dict_get (fold gt_by_pred_add ps []) p [])"
proof (induction ps arbitrary: p rule: rev_induct)
  case Nil
  show ?case by (simp add: dict_get_def)
next
  case (snoc item ps)
  obtain q t where item: "item = (q, t)" by (cases item)
  show ?case
    using snoc [of p] snoc [of q]
    by (auto simp: item gt_by_pred_add_def dict_get_update)
qed

lemma set_gts_of: "set (gts_of truth pred p) = {t. (p, t) \<in> set (zip pred truth)}"
  by (auto simp: gts_of_def image_iff)

lemma gts_code:
  fixes truth :: "'a list" and pred :: "'b list" and p :: 'b
  defines "s \<equiv> dict_get (gt_by_pred pred truth) p []"
  shows "length s = length (gts_of truth pred p)"
    and "length s = 1 \<Longrightarrow> hd s = hd (gts_of truth pred p)"
proof -
  have set_s: "set s = set (gts_of truth pred p)" and ds: "distinct s"
    using gt_by_pred_fold [of "zip pred truth" p]
    by (simp_all add: s_def gt_by_pred_def set_gts_of)
  have dg: "distinct (gts_of truth pred p)" by (simp add: gts_of_def)
  have "length s = card (set s)" using ds by (simp add: distinct_card)
  also have "\<dots> = length (gts_of truth pred p)"
    using dg by (simp add: set_s distinct_card)
  finally show len: "length s = length (gts_of truth pred p)" .
  assume one: "length s = 1"
  then obtain a where a: "s = [a]" by (cases s) auto
  from one len obtain b where b: "gts_of truth pred p = [b]"
    by (cases "gts_of truth pred p") auto
  from set_s a b show "hd s = hd (gts_of truth pred p)" by simp
qed

lemma fold_collapse_body:
  "fold (collapse_body g) xs (m, pm)
     = (fold (\<lambda>p. AList.update p
                (if length (dict_get g p []) = 1 then pure_label (hd (dict_get g p [])) else p))
          xs m,
        pm @ map (\<lambda>p. length (dict_get g p []) = 1) xs)"
  by (induction xs arbitrary: m pm) (simp_all add: collapse_body_def Let_def)

lemma map_of_fold_update:
  "map_of (fold (\<lambda>p. AList.update p (f p)) xs m) k
     = (if k \<in> set xs then Some (f k) else map_of m k)"
  by (induction xs arbitrary: m) (simp_all add: update_conv')

lemma comprehension_total:
  "\<forall>x\<in>set xs. f x = Inr (g x) \<Longrightarrow> comprehension f xs = Inr (map g xs)"
  by (induction xs) simp_all

lemma sum_list_of_bool: "sum_list (map (of_bool \<circ> P) xs) = length (filter P xs)"
  by (induction xs) simp_all

lemma collapse_pure_clusters_eq:
  "collapse_pure_clusters truth pred
     = Inr (map (relabel truth pred) pred,
            if length pred = 0 then 0
            else of_nat (length (filter (is_pure truth pred) pred)) / of_nat (length pred))"
proof -
  let ?g = "gt_by_pred pred truth"
  have rl: "\<And>p. (if length (dict_get ?g p []) = 1 then pure_label (hd (dict_get ?g p [])) else p)
              = relabel truth pred p"
    by (simp add: relabel_def is_pure_def gts_code)
  have fl: "(\<lambda>p. length (dict_get ?g p []) = 1) = is_pure truth pred"
    by (rule ext) (simp add: is_pure_def gts_code)
  have loop: "fold (collapse_body ?g) pred ([], [])
      = (fold (\<lambda>p. AList.update p (relabel truth pred p)) pred [], map (is_pure truth pred) pred)"
    by (simp only: fold_collapse_body rl fl append_Nil)
  have "comprehension (dict_subscript (fold (\<lambda>p. AList.update p (relabel truth pred p)) pred [])) pred
      = Inr (map (relabel truth pred) pred)"
    by (rule comprehension_total) (simp add: dict_subscript_def map_of_fold_update)
  then show ?thesis
    by (simp add: collapse_pure_clusters_def loop sum_list_of_bool)
qed

lemma collapse_ignores_truth_tail:
  "collapse_pure_clusters (take (length pred) truth) pred = collapse_pure_clusters truth pred"
proof -
  have "zip pred (take (length pred) truth)
      = zip (take (length pred) pred) (take (length pred) truth)" by simp
  also have "\<dots> = take (length pred) (zip pred truth)" by (simp only: take_zip)
  also have "\<dots> = zip pred truth" by simp
  finally show ?thesis by (simp add: collapse_pure_clusters_def gt_by_pred_def)
qed

lemma relabel_cases:
  "(is_pure truth pred p \<longrightarrow> relabel truth pred p = ''__PURE__#'' @ hd (gts_of truth pred p))
   \<and> (\<not> is_pure truth pred p \<longrightarrow> relabel truth pred p = p)"
  by (simp add: relabel_def pure_label_def)

lemma count_list_card: "count_list xs k = card {i. i < length xs \<and> xs ! i = k}"
  by (simp add: length_cluster [symmetric] cluster_def length_filter_upt)

lemma cluster_nonempty: "p \<in> set pred \<Longrightarrow> cluster pred p \<noteq> []"
proof -
  assume "p \<in> set pred"
  then have "count_list pred p \<noteq> 0" by (simp add: count_list_0_iff)
  then show ?thesis by (auto simp: length_cluster [symmetric])
qed

lemma set_cluster: "set (cluster pred p) = {i. i < length pred \<and> pred ! i = p}"
  by (auto simp: cluster_def)

lemma group_events_exact:
  assumes "p \<in> set pred"
  shows "group_events truth (cluster pred p)
     = (if exact truth pred p then count_list pred p else 0)"
proof -
  let ?idxs = "cluster pred p"
  let ?gts = "map ((!) truth) ?idxs"
  have ne: "?gts \<noteq> []" using cluster_nonempty [OF assms] by simp
  have hd_in: "fst (hd (Counter ?gts)) \<in> set ?gts" by (rule hd_Counter [OF ne])
  show ?thesis
  proof (cases "exact truth pred p")
    case True
    then obtain t where all: "\<forall>i<length pred. pred ! i = p \<longrightarrow> truth ! i = t"
      and cnt: "count_list pred p = count_list truth t"
      unfolding exact_def by blast
    have "set ?gts \<subseteq> {t}" using all by (auto simp: set_cluster)
    with ne have st: "set ?gts = {t}" by (cases ?gts) auto
    then have "length (Counter ?gts) = 1" by (simp only: length_Counter) simp
    moreover from hd_in st have "fst (hd (Counter ?gts)) = t" by simp
    ultimately show ?thesis
      using True cnt by (simp add: group_events_def Let_def length_cluster)
  next
    case False
    have "\<not> (length (Counter ?gts) = 1
             \<and> length ?idxs = count_list truth (fst (hd (Counter ?gts))))"
    proof
      assume h: "length (Counter ?gts) = 1
             \<and> length ?idxs = count_list truth (fst (hd (Counter ?gts)))"
      let ?t = "fst (hd (Counter ?gts))"
      from h have "card (set ?gts) = 1" by (simp only: length_Counter)
      then obtain u where u: "set ?gts = {u}" by (auto simp: card_1_singleton_iff)
      with hd_in have st: "set ?gts = {?t}" by simp
      have "\<forall>i<length pred. pred ! i = p \<longrightarrow> truth ! i = ?t"
      proof (intro allI impI)
        fix i assume "i < length pred" and "pred ! i = p"
        then have "truth ! i \<in> set ?gts" by (simp add: set_cluster)
        with st show "truth ! i = ?t" by simp
      qed
      moreover from h have "count_list pred p = count_list truth ?t"
        by (simp add: length_cluster)
      ultimately have "exact truth pred p" unfolding exact_def by blast
      with False show False by simp
    qed
    then have "group_events truth ?idxs = 0"
      unfolding group_events_def Let_def by (rule if_not_P)
    with False show ?thesis by simp
  qed
qed

lemma count_list_filter:
  "count_list (filter Q xs) k = (if Q k then count_list xs k else 0)"
  by (induction xs) auto

lemma accurate_events_filter:
  "accurate_events truth pred = length (filter (exact truth pred) pred)"
proof -
  have "accurate_events truth pred
      = (\<Sum>p\<in>set pred. if exact truth pred p then count_list pred p else 0)"
    unfolding accurate_events_def by (rule sum.cong) (simp_all add: group_events_exact)
  also have "\<dots> = (\<Sum>p\<in>set pred. count_list (filter (exact truth pred) pred) p)"
    by (simp only: count_list_filter)
  also have "\<dots> = length (filter (exact truth pred) pred)"
    by (rule sum_count_set) auto
  finally show ?thesis .
qed

lemma length_filter_map_mono:
  "\<forall>x\<in>set xs. P x \<longrightarrow> Q (f x) \<Longrightarrow> length (filter P xs) \<le> length (filter Q (map f xs))"
  by (induction xs) auto

lemma set_gts_of_idx:
  assumes "length truth = length pred"
  shows "set (gts_of truth pred q) = {t. \<exists>i<length pred. pred ! i = q \<and> truth ! i = t}"
proof -
  have "\<And>t. (q, t) \<in> set (zip pred truth) \<longleftrightarrow> (\<exists>i<length pred. pred ! i = q \<and> truth ! i = t)"
    using assms by (auto simp: in_set_zip)
  then show ?thesis by (simp add: set_gts_of)
qed

lemma is_pure_singleton:
  "is_pure truth pred q \<Longrightarrow> gts_of truth pred q = [hd (gts_of truth pred q)]"
  by (cases "gts_of truth pred q") (simp_all add: is_pure_def)

lemma distinct_singleton_set:
  assumes "distinct xs" and "set xs = {t}"
  shows "xs = [t]"
proof -
  have "length xs = card (set xs)" using assms(1) by (simp add: distinct_card)
  with assms(2) have "length xs = 1" by simp
  then obtain a where "xs = [a]" by (cases xs) auto
  with assms(2) show ?thesis by simp
qed

lemma pure_label_inject: "pure_label s = pure_label t \<longleftrightarrow> s = t"
  by (simp add: pure_label_def)

lemma exact_after_collapse:
  assumes len: "length truth = length pred"
    and cf: "collision_free truth pred"
    and mem: "p \<in> set pred"
    and ex: "exact truth pred p"
  shows "exact truth (map (relabel truth pred) pred) (relabel truth pred p)"
proof -
  let ?r = "relabel truth pred"
  let ?n = "length pred"
  from ex obtain t where all: "\<forall>i<?n. pred ! i = p \<longrightarrow> truth ! i = t"
    and cnt: "count_list pred p = count_list truth t"
    unfolding exact_def by blast
  from mem obtain i0 where i0: "i0 < ?n" "pred ! i0 = p" by (auto simp: in_set_conv_nth)
  have sp: "set (gts_of truth pred p) = {t}"
    using all i0 by (auto simp: set_gts_of_idx [OF len])
  have "distinct (gts_of truth pred p)" by (simp add: gts_of_def)
  then have gp: "gts_of truth pred p = [t]" using sp by (rule distinct_singleton_set)
  then have pure_p: "is_pure truth pred p" and rp: "?r p = pure_label t"
    by (simp_all add: is_pure_def relabel_def)
  have B: "truth ! i = t" if i: "i < ?n" and eq: "?r (pred ! i) = pure_label t" for i
  proof (cases "is_pure truth pred (pred ! i)")
    case True
    let ?t' = "hd (gts_of truth pred (pred ! i))"
    from True eq have "pure_label ?t' = pure_label t" by (simp add: relabel_def)
    then have t': "?t' = t" by (simp only: pure_label_inject)
    have "truth ! i \<in> set (gts_of truth pred (pred ! i))"
      using i by (auto simp: set_gts_of_idx [OF len])
    also have "gts_of truth pred (pred ! i) = [?t']" by (rule is_pure_singleton [OF True])
    finally show ?thesis using t' by simp
  next
    case False
    with eq have "pred ! i = pure_label t" by (simp add: relabel_def)
    with rp have "?r p = pred ! i" by simp
    moreover from i have "pred ! i \<in> set pred" by simp
    ultimately show ?thesis
      using cf mem pure_p False unfolding collision_free_def by blast
  qed
  have sub: "{i. i < ?n \<and> pred ! i = p} \<subseteq> {i. i < ?n \<and> truth ! i = t}"
    using all by auto
  have "card {i. i < ?n \<and> pred ! i = p} = card {i. i < ?n \<and> truth ! i = t}"
    using cnt len by (simp add: count_list_card)
  with sub have C: "{i. i < ?n \<and> pred ! i = p} = {i. i < ?n \<and> truth ! i = t}"
    by (intro card_subset_eq) simp_all
  have D: "{i. i < ?n \<and> ?r (pred ! i) = pure_label t} = {i. i < ?n \<and> truth ! i = t}"
  proof (intro equalityI subsetI)
    fix i assume "i \<in> {i. i < ?n \<and> ?r (pred ! i) = pure_label t}"
    then show "i \<in> {i. i < ?n \<and> truth ! i = t}" using B by simp
  next
    fix i assume "i \<in> {i. i < ?n \<and> truth ! i = t}"
    with C have "i < ?n \<and> pred ! i = p" by blast
    then show "i \<in> {i. i < ?n \<and> ?r (pred ! i) = pure_label t}" using rp by simp
  qed
  have "{i. i < ?n \<and> map ?r pred ! i = pure_label t}
      = {i. i < ?n \<and> ?r (pred ! i) = pure_label t}"
    by auto
  then have "count_list (map ?r pred) (pure_label t) = count_list truth t"
    using D len by (simp add: count_list_card)
  moreover have "\<forall>i<length (map ?r pred). map ?r pred ! i = pure_label t \<longrightarrow> truth ! i = t"
    using B by simp
  ultimately show ?thesis unfolding exact_def rp by blast
qed

lemma accurate_events_collapse_mono:
  assumes "length truth = length pred" and "collision_free truth pred"
  shows "accurate_events truth pred
     \<le> accurate_events truth (map (relabel truth pred) pred)"
  unfolding accurate_events_filter
  by (rule length_filter_map_mono) (simp add: exact_after_collapse [OF assms])

lemma collision_free_untagged:
  assumes "\<forall>p\<in>set pred. \<not> prefix ''__PURE__#'' p"
  shows "collision_free truth pred"
  unfolding collision_free_def
proof (intro ballI impI)
  fix p m assume "m \<in> set pred" and h: "is_pure truth pred p \<and> \<not> is_pure truth pred m"
  with assms have "\<not> prefix ''__PURE__#'' m" by blast
  moreover from h have "prefix ''__PURE__#'' (relabel truth pred p)"
    by (simp add: relabel_def pure_label_def del: append.simps)
  ultimately show "relabel truth pred p \<noteq> m" by auto
qed

section \<open>The claims\<close>

subsection \<open>Claim C1\<close>

text \<open>
  C1, as stated, fails on a sequence without a repeated label: on \<open>[a]\<close> there is no
  same-label pair, \<^verbatim>\<open>real_pairs\<close> and \<^verbatim>\<open>parsed_pairs\<close> are 0, the guards of lines 72 to 74
  set precision, recall and GA to 0, and only PA is 1.
\<close>

theorem C1_counterexample:
  "accuracy_metrics [''a''] [''a'']
     = Inr \<lparr>GA = 0, GA_precision = 0, GA_recall = 0, PA = 1\<rparr>"
  by code_simp

text \<open>
  C1 (amended). For every non-empty label sequence \<open>x\<close>, \<open>accuracy_metrics x x\<close> returns
  \<open>PA = 1\<close>; it returns \<open>GA = GA_precision = GA_recall = 1\<close> when some label occurs more than
  once in \<open>x\<close>, and \<open>GA = GA_precision = GA_recall = 0\<close> when all labels of \<open>x\<close> are distinct.
\<close>

theorem C1_identity_amended:
  assumes "x \<noteq> []"
  shows "accuracy_metrics x x
     = Inr \<lparr>GA = (if distinct x then 0 else 1),
            GA_precision = (if distinct x then 0 else 1),
            GA_recall = (if distinct x then 0 else 1),
            PA = 1\<rparr>"
proof (cases "distinct x")
  case True
  then have "sum_comb2 (Counter x) = 0" by (simp only: pairs_eq_0)
  with True assms show ?thesis
    by (simp add: accuracy_metrics_self metrics_of_def)
next
  case False
  then have "sum_comb2 (Counter x) \<noteq> 0" by (simp only: pairs_eq_0) simp
  with False assms show ?thesis
    by (simp add: accuracy_metrics_self metrics_of_def)
qed

text \<open>
  The amended identity at \<open>x = [a, b, a]\<close>, where the label \<open>a\<close> is repeated.
\<close>

theorem C1_identity_amended_witness:
  "[''a'', ''b'', ''a''] \<noteq> []
   \<and> accuracy_metrics [''a'', ''b'', ''a''] [''a'', ''b'', ''a'']
       = Inr \<lparr>GA = 1, GA_precision = 1, GA_recall = 1, PA = 1\<rparr>"
  using C1_identity_amended [of "[''a'', ''b'', ''a'']"] by simp

subsection \<open>Claim C2\<close>

text \<open>
  C2, as stated, fails: with sequences of different lengths each evaluator returns a
  result. \<^verbatim>\<open>purity_metric\<close> scores the two zipped pairs of a three-element and a
  two-element sequence, \<^verbatim>\<open>collapse_pure_clusters\<close> relabels a prediction longer than the
  truth, and \<^verbatim>\<open>accuracy_metrics\<close> scores a prediction shorter than the truth.
\<close>

theorem C2_counterexample:
  "purity_metric [''a'', ''b'', ''a''] [''x'', ''y''] = 1
   \<and> collapse_pure_clusters [''a''] [''a'', ''b''] = Inr ([''__PURE__#a'', ''b''], 1 / 2)
   \<and> accuracy_metrics [''a'', ''b''] [''a'']
       = Inr \<lparr>GA = 0, GA_precision = 0, GA_recall = 0, PA = 1 / 2\<rparr>"
  by code_simp

text \<open>
  C2 (amended). The length check belongs to the batch loop: \<open>compare_sequences\<close> raises
  \<^verbatim>\<open>ValueError\<close> on sequences of different lengths before it calls an evaluator. The
  evaluators do not check. \<open>purity_metric\<close> returns the purity of the two sequences cut to
  the shorter length; \<open>collapse_pure_clusters\<close> always returns a result, the one it returns
  for the truth cut to the length of the prediction; \<open>accuracy_metrics\<close> raises
  \<^verbatim>\<open>IndexError\<close> when the prediction is longer than the truth and returns a result when
  it is not.
\<close>

theorem C2_length_mismatch_amended:
  "(length truth \<noteq> length pred \<longrightarrow> compare_sequences truth pred = Inl ValueError)
   \<and> purity_metric base_ids other_ids
       = purity_metric (take (min (length base_ids) (length other_ids)) base_ids)
                       (take (min (length base_ids) (length other_ids)) other_ids)
   \<and> (\<exists>merged_pred pure_coverage.
         collapse_pure_clusters truth pred = Inr (merged_pred, pure_coverage)
         \<and> collapse_pure_clusters (take (length pred) truth) pred = Inr (merged_pred, pure_coverage))
   \<and> (length truth < length pred \<longrightarrow> accuracy_metrics truth pred = Inl IndexError)
   \<and> (length pred \<le> length truth \<longrightarrow> (\<exists>m. accuracy_metrics truth pred = Inr m))"
proof -
  have "\<exists>merged_pred pure_coverage.
         collapse_pure_clusters truth pred = Inr (merged_pred, pure_coverage)
         \<and> collapse_pure_clusters (take (length pred) truth) pred = Inr (merged_pred, pure_coverage)"
    by (simp add: collapse_ignores_truth_tail) (simp add: collapse_pure_clusters_eq)
  moreover have "length truth \<noteq> length pred \<longrightarrow> compare_sequences truth pred = Inl ValueError"
    by (simp add: compare_sequences_def)
  moreover have "length pred \<le> length truth \<longrightarrow> (\<exists>m. accuracy_metrics truth pred = Inr m)"
    by (simp add: accuracy_metrics_eq)
  ultimately show ?thesis
    using purity_metric_truncates [of base_ids other_ids] accuracy_metrics_fail [of truth pred]
    by blast
qed

text \<open>
  The amended statement at \<open>[a]\<close> against \<open>[a, b]\<close>, in both argument orders.
\<close>

theorem C2_length_mismatch_amended_witness:
  "length [''a''] \<noteq> length [''a'', ''b'']
   \<and> compare_sequences [''a''] [''a'', ''b''] = Inl ValueError
   \<and> length [''a''] < length [''a'', ''b'']
   \<and> accuracy_metrics [''a''] [''a'', ''b''] = Inl IndexError
   \<and> (\<exists>merged_pred pure_coverage.
         collapse_pure_clusters [''a''] [''a'', ''b''] = Inr (merged_pred, pure_coverage))
   \<and> length [''a''] \<le> length [''a'', ''b'']
   \<and> (\<exists>m. accuracy_metrics [''a'', ''b''] [''a''] = Inr m)"
proof -
  have h1: "length [''a''] \<noteq> length [''a'', ''b'']" by simp
  have h2: "length [''a''] < length [''a'', ''b'']" by simp
  have h3: "length [''a''] \<le> length [''a'', ''b'']" by simp
  from C2_length_mismatch_amended [of "[''a'']" "[''a'', ''b'']"]
       C2_length_mismatch_amended [of "[''a'', ''b'']" "[''a'']"] h1 h2 h3
  show ?thesis by blast
qed

subsection \<open>Claim C3\<close>

text \<open>
  C3, as stated, fails when a predicted label already has the form of a merged label. Here
  the predicted cluster \<open>X\<close> is pure with ground truth \<open>A\<close> and becomes \<open>__PURE__#A\<close>, while
  the predicted cluster that is literally named \<open>__PURE__#A\<close> mixes \<open>A\<close> and \<open>B\<close> and keeps
  its name: all three positions end up with the same label.
\<close>

theorem C3_counterexample:
  "collapse_pure_clusters [''A'', ''A'', ''B''] [''X'', ''__PURE__#A'', ''__PURE__#A'']
     = Inr ([''__PURE__#A'', ''__PURE__#A'', ''__PURE__#A''], 1 / 3)
   \<and> is_pure [''A'', ''A'', ''B''] [''X'', ''__PURE__#A'', ''__PURE__#A''] ''X''
   \<and> \<not> is_pure [''A'', ''A'', ''B''] [''X'', ''__PURE__#A'', ''__PURE__#A''] ''__PURE__#A''"
  by code_simp

text \<open>
  C3 (amended). \<open>collapse_pure_clusters\<close> gives every position of a pure predicted cluster
  the label \<open>__PURE__#\<close> followed by the sole ground-truth label of that cluster, and leaves
  the label of every other position unchanged. A merged label therefore differs from every
  label, predicted or ground-truth, that does not itself begin with \<open>__PURE__#\<close>; nothing
  is promised about labels that do.
\<close>

theorem C3_merged_labels_amended:
  "\<exists>merged_pred pure_coverage.
      collapse_pure_clusters truth pred = Inr (merged_pred, pure_coverage)
      \<and> (\<forall>i<length pred.
            (is_pure truth pred (pred ! i) \<longrightarrow>
               merged_pred ! i = ''__PURE__#'' @ hd (gts_of truth pred (pred ! i))
               \<and> (\<forall>l. \<not> prefix ''__PURE__#'' l \<longrightarrow> merged_pred ! i \<noteq> l))
          \<and> (\<not> is_pure truth pred (pred ! i) \<longrightarrow> merged_pred ! i = pred ! i))"
proof -
  let ?merged = "map (relabel truth pred) pred"
  have "\<forall>i<length pred.
            (is_pure truth pred (pred ! i) \<longrightarrow>
               ?merged ! i = ''__PURE__#'' @ hd (gts_of truth pred (pred ! i))
               \<and> (\<forall>l. \<not> prefix ''__PURE__#'' l \<longrightarrow> ?merged ! i \<noteq> l))
          \<and> (\<not> is_pure truth pred (pred ! i) \<longrightarrow> ?merged ! i = pred ! i)"
  proof (intro allI impI conjI)
    fix i assume "i < length pred" and "is_pure truth pred (pred ! i)"
    then show "?merged ! i = ''__PURE__#'' @ hd (gts_of truth pred (pred ! i))"
      using relabel_cases [of truth pred "pred ! i"] by simp
  next
    fix i l assume "i < length pred" and "is_pure truth pred (pred ! i)"
      and "\<not> prefix ''__PURE__#'' l"
    then show "?merged ! i \<noteq> l"
      using relabel_cases [of truth pred "pred ! i"] by (auto simp del: append.simps)
  next
    fix i assume "i < length pred" and "\<not> is_pure truth pred (pred ! i)"
    then show "?merged ! i = pred ! i"
      using relabel_cases [of truth pred "pred ! i"] by simp
  qed
  then show ?thesis unfolding collapse_pure_clusters_eq by blast
qed

text \<open>
  The amended statement at \<open>truth = [A, A, B]\<close>, \<open>pred = [X, Y, Y]\<close>: position 0 lies in the
  pure cluster \<open>X\<close>, position 1 in the mixed cluster \<open>Y\<close>.
\<close>

theorem C3_merged_labels_amended_witness:
  "\<exists>merged_pred pure_coverage.
      collapse_pure_clusters [''A'', ''A'', ''B''] [''X'', ''Y'', ''Y'']
        = Inr (merged_pred, pure_coverage)
      \<and> is_pure [''A'', ''A'', ''B''] [''X'', ''Y'', ''Y''] ''X''
      \<and> \<not> prefix ''__PURE__#'' ''X''
      \<and> merged_pred ! 0 = ''__PURE__#A'' \<and> merged_pred ! 0 \<noteq> ''X''
      \<and> \<not> is_pure [''A'', ''A'', ''B''] [''X'', ''Y'', ''Y''] ''Y''
      \<and> merged_pred ! 1 = ''Y''"
proof -
  have p: "is_pure [''A'', ''A'', ''B''] [''X'', ''Y'', ''Y''] ''X''" by code_simp
  have g: "hd (gts_of [''A'', ''A'', ''B''] [''X'', ''Y'', ''Y''] ''X'') = ''A''" by code_simp
  have q: "\<not> is_pure [''A'', ''A'', ''B''] [''X'', ''Y'', ''Y''] ''Y''" by code_simp
  have n: "\<not> prefix ''__PURE__#'' ''X''" by simp
  from C3_merged_labels_amended [of "[''A'', ''A'', ''B'']" "[''X'', ''Y'', ''Y'']"]
  obtain merged_pred pure_coverage where
    c: "collapse_pure_clusters [''A'', ''A'', ''B''] [''X'', ''Y'', ''Y'']
          = Inr (merged_pred, pure_coverage)"
    and a: "\<forall>i<length [''X'', ''Y'', ''Y''].
            (is_pure [''A'', ''A'', ''B''] [''X'', ''Y'', ''Y''] ([''X'', ''Y'', ''Y''] ! i) \<longrightarrow>
               merged_pred ! i = ''__PURE__#'' @ hd (gts_of [''A'', ''A'', ''B''] [''X'', ''Y'', ''Y''] ([''X'', ''Y'', ''Y''] ! i))
               \<and> (\<forall>l. \<not> prefix ''__PURE__#'' l \<longrightarrow> merged_pred ! i \<noteq> l))
          \<and> (\<not> is_pure [''A'', ''A'', ''B''] [''X'', ''Y'', ''Y''] ([''X'', ''Y'', ''Y''] ! i) \<longrightarrow>
               merged_pred ! i = [''X'', ''Y'', ''Y''] ! i)"
    by blast
  from a [rule_format, of 0] p g n have m0: "merged_pred ! 0 = ''__PURE__#A'' \<and> merged_pred ! 0 \<noteq> ''X''"
    by simp
  from a [rule_format, of 1] q have m1: "merged_pred ! 1 = ''Y''" by simp
  from c p n m0 q m1 show ?thesis by blast
qed

subsection \<open>Claim C4\<close>

text \<open>
  C4. On \<open>truth = [A, A, B, B, B]\<close> and \<open>pred = [X, X, Y, Y, Z]\<close>,
  \<open>accuracy_metrics\<close> returns \<open>GA_precision = 1\<close>, \<open>GA_recall = 1/2\<close>, \<open>GA = 2/3\<close> and
  \<open>PA = 2/5\<close>; \<open>collapse_pure_clusters\<close> relabels all three predicted clusters with
  merged labels and reports \<open>pure_coverage = 1\<close>; and \<open>accuracy_metrics\<close> on the merged
  prediction returns \<open>PA = 1\<close>.
\<close>

theorem C4_concrete_scenario:
  "accuracy_metrics [''A'', ''A'', ''B'', ''B'', ''B''] [''X'', ''X'', ''Y'', ''Y'', ''Z'']
     = Inr \<lparr>GA = 2 / 3, GA_precision = 1, GA_recall = 1 / 2, PA = 2 / 5\<rparr>
   \<and> collapse_pure_clusters [''A'', ''A'', ''B'', ''B'', ''B''] [''X'', ''X'', ''Y'', ''Y'', ''Z'']
     = Inr ([pure_label ''A'', pure_label ''A'', pure_label ''B'', pure_label ''B'',
             pure_label ''B''], 1)
   \<and> accuracy_metrics [''A'', ''A'', ''B'', ''B'', ''B'']
         [pure_label ''A'', pure_label ''A'', pure_label ''B'', pure_label ''B'', pure_label ''B'']
     = Inr \<lparr>GA = 1, GA_precision = 1, GA_recall = 1, PA = 1\<rparr>"
  by code_simp

subsection \<open>Claim C5\<close>

text \<open>
  C5, as stated, fails when a mixed predicted cluster carries the name of a merged label.
  Before collapsing, the cluster \<open>X\<close> reconstructs the ground-truth cluster \<open>A\<close> and
  \<open>PA = 1/3\<close>. Collapsing renames \<open>X\<close> to \<open>__PURE__#A\<close>, the name of the mixed cluster at
  positions 1 and 2, so the three positions form one cluster and \<open>PA\<close> drops to 0.
\<close>

theorem C5_counterexample:
  "accuracy_metrics [''A'', ''B'', ''C''] [''X'', ''__PURE__#A'', ''__PURE__#A'']
     = Inr \<lparr>GA = 0, GA_precision = 0, GA_recall = 0, PA = 1 / 3\<rparr>
   \<and> collapse_pure_clusters [''A'', ''B'', ''C''] [''X'', ''__PURE__#A'', ''__PURE__#A'']
     = Inr ([''__PURE__#A'', ''__PURE__#A'', ''__PURE__#A''], 1 / 3)
   \<and> accuracy_metrics [''A'', ''B'', ''C''] [''__PURE__#A'', ''__PURE__#A'', ''__PURE__#A'']
     = Inr \<lparr>GA = 0, GA_precision = 0, GA_recall = 0, PA = 0\<rparr>"
  by code_simp

text \<open>
  C5 (amended). For every equal-length \<open>truth\<close> and \<open>pred\<close> in which no label of a
  non-pure predicted cluster is equal to a merged label generated for a pure one,
  \<open>collapse_pure_clusters\<close> returns a merged prediction whose \<open>PA\<close> is at least the \<open>PA\<close>
  of \<open>pred\<close>.
\<close>

theorem C5_collapse_monotone_amended:
  assumes "length truth = length pred" and "collision_free truth pred"
  shows "\<exists>merged_pred pure_coverage m m'.
           collapse_pure_clusters truth pred = Inr (merged_pred, pure_coverage)
           \<and> accuracy_metrics truth pred = Inr m
           \<and> accuracy_metrics truth merged_pred = Inr m'
           \<and> PA m \<le> PA m'"
proof -
  let ?merged = "map (relabel truth pred) pred"
  have le: "length pred \<le> length truth" and le': "length ?merged \<le> length truth"
    using assms(1) by simp_all
  have "accurate_events truth pred \<le> accurate_events truth ?merged"
    by (rule accurate_events_collapse_mono [OF assms])
  then have "(of_nat (accurate_events truth pred) :: rat) / of_nat (length truth)
      \<le> of_nat (accurate_events truth ?merged) / of_nat (length truth)"
    by (intro divide_right_mono) simp_all
  then have "PA (metrics_of (sum_comb2 (Counter truth)) (sum_comb2 (Counter pred))
                  (accurate_pairs truth pred) (accurate_events truth pred) (length truth))
      \<le> PA (metrics_of (sum_comb2 (Counter truth)) (sum_comb2 (Counter ?merged))
                  (accurate_pairs truth ?merged) (accurate_events truth ?merged) (length truth))"
    by (simp add: metrics_of_sel(3))
  then show ?thesis
    unfolding collapse_pure_clusters_eq accuracy_metrics_eq [OF le]
    using accuracy_metrics_eq [OF le'] by blast
qed

text \<open>
  The amended monotonicity at \<open>truth = [A, A, B, C]\<close>, \<open>pred = [X, W, Y, Y]\<close>: the pure
  clusters \<open>X\<close> and \<open>W\<close> merge into \<open>__PURE__#A\<close>, the mixed cluster \<open>Y\<close> keeps its name,
  no predicted label has the form of a merged label, and \<open>PA\<close> rises from 0 to \<open>1/2\<close>.
\<close>

theorem C5_collapse_monotone_amended_witness:
  "length [''A'', ''A'', ''B'', ''C''] = length [''X'', ''W'', ''Y'', ''Y'']
   \<and> collision_free [''A'', ''A'', ''B'', ''C''] [''X'', ''W'', ''Y'', ''Y'']
   \<and> (\<exists>merged_pred pure_coverage m m'.
         collapse_pure_clusters [''A'', ''A'', ''B'', ''C''] [''X'', ''W'', ''Y'', ''Y'']
           = Inr (merged_pred, pure_coverage)
         \<and> accuracy_metrics [''A'', ''A'', ''B'', ''C''] [''X'', ''W'', ''Y'', ''Y'']
           = Inr m
         \<and> accuracy_metrics [''A'', ''A'', ''B'', ''C''] merged_pred = Inr m'
         \<and> PA m \<le> PA m')
   \<and> accuracy_metrics [''A'', ''A'', ''B'', ''C''] [''X'', ''W'', ''Y'', ''Y'']
       = Inr \<lparr>GA = 0, GA_precision = 0, GA_recall = 0, PA = 0\<rparr>
   \<and> accuracy_metrics [''A'', ''A'', ''B'', ''C''] [''__PURE__#A'', ''__PURE__#A'', ''Y'', ''Y'']
       = Inr \<lparr>GA = 2 / 3, GA_precision = 1 / 2, GA_recall = 1, PA = 1 / 2\<rparr>"
proof -
  have v1: "accuracy_metrics [''A'', ''A'', ''B'', ''C''] [''X'', ''W'', ''Y'', ''Y'']
       = Inr \<lparr>GA = 0, GA_precision = 0, GA_recall = 0, PA = 0\<rparr>" by code_simp
  have v2: "accuracy_metrics [''A'', ''A'', ''B'', ''C''] [''__PURE__#A'', ''__PURE__#A'', ''Y'', ''Y'']
       = Inr \<lparr>GA = 2 / 3, GA_precision = 1 / 2, GA_recall = 1, PA = 1 / 2\<rparr>" by code_simp
  have h1: "length [''A'', ''A'', ''B'', ''C''] = length [''X'', ''W'', ''Y'', ''Y'']"
    by simp
  have h2: "collision_free [''A'', ''A'', ''B'', ''C''] [''X'', ''W'', ''Y'', ''Y'']"
    by code_simp
  from C5_collapse_monotone_amended [OF h1 h2] h1 h2 v1 v2 show ?thesis by blast
qed

subsection \<open>Claim C6\<close>

text \<open>
  C6. For every pair of equal-length sequences \<open>a\<close> and \<open>b\<close>, the precision of
  \<open>accuracy_metrics a b\<close> is the recall of \<open>accuracy_metrics b a\<close>, and its recall is the
  precision of \<open>accuracy_metrics b a\<close>.
\<close>

theorem C6_precision_recall_swap:
  assumes "length a = length b"
  shows "\<exists>m m'. accuracy_metrics a b = Inr m \<and> accuracy_metrics b a = Inr m'
           \<and> GA_precision m = GA_recall m' \<and> GA_recall m = GA_precision m'"
  using assms
  by (simp add: accuracy_metrics_eq metrics_of_sel accurate_pairs_sym [of a b])

text \<open>
  The swap at \<open>a = [A, A, B, B, B]\<close>, \<open>b = [X, X, Y, Y, Z]\<close>.
\<close>

theorem C6_precision_recall_swap_witness:
  "length [''A'', ''A'', ''B'', ''B'', ''B''] = length [''X'', ''X'', ''Y'', ''Y'', ''Z'']
   \<and> (\<exists>m m'. accuracy_metrics [''A'', ''A'', ''B'', ''B'', ''B''] [''X'', ''X'', ''Y'', ''Y'', ''Z''] = Inr m
         \<and> accuracy_metrics [''X'', ''X'', ''Y'', ''Y'', ''Z''] [''A'', ''A'', ''B'', ''B'', ''B''] = Inr m'
         \<and> GA_precision m = GA_recall m' \<and> GA_recall m = GA_precision m')"
  using C6_precision_recall_swap [of "[''A'', ''A'', ''B'', ''B'', ''B'']" "[''X'', ''X'', ''Y'', ''Y'', ''Z'']"]
  by simp

subsection \<open>Claim C7\<close>

text \<open>
  C7, as stated without a condition on the lengths, fails when the prediction is longer
  than the truth. On \<open>truth = []\<close>, \<open>pred = [a]\<close> every denominator is 0
  (\<^verbatim>\<open>real_pairs\<close>, \<^verbatim>\<open>parsed_pairs\<close> and \<open>N = len(truth)\<close>), but the subscript
  \<^verbatim>\<open>truth[0]\<close> of line 65 raises \<^verbatim>\<open>IndexError\<close> before the guards of lines 72 to 75 are
  reached.
\<close>

theorem C7_counterexample:
  "length ([] :: string list) = 0
   \<and> sum_comb2 (Counter ([] :: string list)) = 0
   \<and> sum_comb2 (Counter [''a'']) = 0
   \<and> accuracy_metrics ([] :: string list) [''a''] = Inl IndexError"
  by code_simp

text \<open>
  C7 (amended). Whenever the prediction is not longer than the truth (in particular for
  sequences of equal length, empty ones included), \<open>accuracy_metrics\<close> returns a record and
  raises nothing, and in that record \<open>GA_precision\<close> is 0 when \<^verbatim>\<open>parsed_pairs\<close> is 0,
  \<open>GA_recall\<close> is 0 when \<^verbatim>\<open>real_pairs\<close> is 0, \<open>GA\<close> is 0 when the denominator
  \<open>precision + recall\<close> is 0, and \<open>PA\<close> is 0 when \<open>N\<close> is 0. \<open>purity_metric\<close> returns 0
  when its total label count is 0, whatever the lengths. On empty sequences
  \<open>accuracy_metrics\<close> returns \<open>GA = GA_precision = GA_recall = PA = 0\<close> and \<open>purity_metric\<close>
  returns 0.
\<close>

theorem C7_degenerate_inputs_amended:
  assumes "length pred \<le> length truth"
  shows "(\<exists>m. accuracy_metrics truth pred = Inr m
            \<and> (sum_comb2 (Counter pred) = 0 \<longrightarrow> GA_precision m = 0)
            \<and> (sum_comb2 (Counter truth) = 0 \<longrightarrow> GA_recall m = 0)
            \<and> (GA_precision m + GA_recall m = 0 \<longrightarrow> GA m = 0)
            \<and> (length truth = 0 \<longrightarrow> PA m = 0))
       \<and> (snd (purity_sums base_ids other_ids) = 0 \<longrightarrow> purity_metric base_ids other_ids = 0)
       \<and> accuracy_metrics ([] :: 'c list) ([] :: 'd list)
            = Inr \<lparr>GA = 0, GA_precision = 0, GA_recall = 0, PA = 0\<rparr>
       \<and> purity_metric ([] :: 'e list) ([] :: 'f list) = 0"
proof -
  let ?m = "metrics_of (sum_comb2 (Counter truth)) (sum_comb2 (Counter pred))
              (accurate_pairs truth pred) (accurate_events truth pred) (length truth)"
  have P: "0 \<le> GA_precision ?m" and R: "0 \<le> GA_recall ?m"
    by (simp_all add: metrics_of_sel)
  have "GA_precision ?m + GA_recall ?m = 0 \<longrightarrow> GA ?m = 0"
  proof
    assume "GA_precision ?m + GA_recall ?m = 0"
    with P R have "GA_precision ?m = 0 \<and> GA_recall ?m = 0"
      by (simp add: add_nonneg_eq_0_iff)
    then show "GA ?m = 0" by (simp add: metrics_of_sel(4))
  qed
  then have acc: "\<exists>m. accuracy_metrics truth pred = Inr m
            \<and> (sum_comb2 (Counter pred) = 0 \<longrightarrow> GA_precision m = 0)
            \<and> (sum_comb2 (Counter truth) = 0 \<longrightarrow> GA_recall m = 0)
            \<and> (GA_precision m + GA_recall m = 0 \<longrightarrow> GA m = 0)
            \<and> (length truth = 0 \<longrightarrow> PA m = 0)"
    by (simp add: accuracy_metrics_eq [OF assms] metrics_of_sel(1,2,3))
  have pur: "snd (purity_sums base_ids other_ids) = 0 \<longrightarrow> purity_metric base_ids other_ids = 0"
    by (cases "purity_sums base_ids other_ids") (simp add: purity_metric_def)
  have e1: "accuracy_metrics ([] :: 'c list) ([] :: 'd list)
            = Inr \<lparr>GA = 0, GA_precision = 0, GA_recall = 0, PA = 0\<rparr>"
    by (simp add: accuracy_metrics_def idx_by_pred_def Counter_def sum_comb2_def dict_values_def
          metrics_of_def)
  have e2: "purity_metric ([] :: 'e list) ([] :: 'f list) = 0"
    by (simp add: purity_metric_def purity_sums_def base_to_other_def dict_values_def)
  from acc pur e1 e2 show ?thesis by blast
qed

text \<open>
  The amended statement at \<open>truth = [p]\<close>, \<open>pred = [q]\<close>: one line, no pair on either
  side.
\<close>

theorem C7_degenerate_inputs_amended_witness:
  "length [''q''] \<le> length [''p'']
   \<and> sum_comb2 (Counter [''q'']) = 0 \<and> sum_comb2 (Counter [''p'']) = 0
   \<and> (\<exists>m. accuracy_metrics [''p''] [''q''] = Inr m
         \<and> GA_precision m = 0 \<and> GA_recall m = 0 \<and> GA m = 0)"
proof -
  have h: "length [''q''] \<le> length [''p'']" by simp
  have z1: "sum_comb2 (Counter [''q'']) = 0" by code_simp
  have z2: "sum_comb2 (Counter [''p'']) = 0" by code_simp
  from C7_degenerate_inputs_amended [OF h] z1 z2 h show ?thesis by fastforce
qed

subsection \<open>Claim C8\<close>

text \<open>
  C8. For every pair of equal-length sequences, \<open>GA\<close>, \<open>GA_precision\<close>, \<open>GA_recall\<close> and
  \<open>PA\<close> of \<open>accuracy_metrics\<close>, the result of \<open>purity_metric\<close> in both argument orders, and
  the \<open>pure_coverage\<close> of \<open>collapse_pure_clusters\<close> all lie in the closed interval from 0
  to 1.
\<close>

theorem C8_values_in_unit_interval:
  assumes "length truth = length pred"
  shows "(\<exists>m. accuracy_metrics truth pred = Inr m
            \<and> 0 \<le> GA m \<and> GA m \<le> 1
            \<and> 0 \<le> GA_precision m \<and> GA_precision m \<le> 1
            \<and> 0 \<le> GA_recall m \<and> GA_recall m \<le> 1
            \<and> 0 \<le> PA m \<and> PA m \<le> 1)
       \<and> 0 \<le> purity_metric pred truth \<and> purity_metric pred truth \<le> 1
       \<and> 0 \<le> purity_metric truth pred \<and> purity_metric truth pred \<le> 1
       \<and> (\<exists>merged_pred pure_coverage.
             collapse_pure_clusters truth pred = Inr (merged_pred, pure_coverage)
             \<and> 0 \<le> pure_coverage \<and> pure_coverage \<le> 1)"
proof -
  have le: "length pred \<le> length truth" using assms by simp
  have ev: "accurate_events truth pred \<le> length truth"
    using accurate_events_le [of truth pred] assms by simp
  note b = metrics_of_bounds [OF accurate_pairs_le_parsed accurate_pairs_le_real [OF assms] ev]
  have acc: "\<exists>m. accuracy_metrics truth pred = Inr m
            \<and> 0 \<le> GA m \<and> GA m \<le> 1
            \<and> 0 \<le> GA_precision m \<and> GA_precision m \<le> 1
            \<and> 0 \<le> GA_recall m \<and> GA_recall m \<le> 1
            \<and> 0 \<le> PA m \<and> PA m \<le> 1"
    unfolding accuracy_metrics_eq [OF le] using b by blast
  have "length (filter (is_pure truth pred) pred) \<le> length pred" by simp
  then have cov: "\<exists>merged_pred pure_coverage.
             collapse_pure_clusters truth pred = Inr (merged_pred, pure_coverage)
             \<and> 0 \<le> pure_coverage \<and> pure_coverage \<le> 1"
    by (simp add: collapse_pure_clusters_eq)
  from acc cov purity_metric_bounds [of pred truth] purity_metric_bounds [of truth pred]
  show ?thesis by blast
qed

text \<open>
  The bounds at \<open>truth = [A, A, B, B, B]\<close>, \<open>pred = [X, X, Y, Y, Z]\<close>.
\<close>

theorem C8_values_in_unit_interval_witness:
  "length [''A'', ''A'', ''B'', ''B'', ''B''] = length [''X'', ''X'', ''Y'', ''Y'', ''Z'']
   \<and> (\<exists>m. accuracy_metrics [''A'', ''A'', ''B'', ''B'', ''B''] [''X'', ''X'', ''Y'', ''Y'', ''Z''] = Inr m
         \<and> 0 \<le> GA m \<and> GA m \<le> 1 \<and> 0 \<le> PA m \<and> PA m \<le> 1)
   \<and> purity_metric [''X'', ''X'', ''Y'', ''Y'', ''Z''] [''A'', ''A'', ''B'', ''B'', ''B''] \<le> 1
   \<and> (\<exists>merged_pred pure_coverage.
         collapse_pure_clusters [''A'', ''A'', ''B'', ''B'', ''B''] [''X'', ''X'', ''Y'', ''Y'', ''Z'']
           = Inr (merged_pred, pure_coverage)
         \<and> 0 \<le> pure_coverage \<and> pure_coverage \<le> 1)"
proof -
  have h: "length [''A'', ''A'', ''B'', ''B'', ''B''] = length [''X'', ''X'', ''Y'', ''Y'', ''Z'']"
    by simp
  from C8_values_in_unit_interval [OF h] h show ?thesis by blast
qed

subsection \<open>Claim C9\<close>

text \<open>
  C9, as stated without a non-emptiness restriction, fails on the empty sequence: the guard
  of line 92 returns 0 when \<^verbatim>\<open>total_sum\<close> is 0.
\<close>

theorem C9_counterexample:
  "purity_metric ([] :: string list) ([] :: string list) = 0
   \<and> purity_metric ([] :: string list) ([] :: string list) \<noteq> 1"
  by code_simp

text \<open>
  C9 (amended). For every non-empty label sequence \<open>a\<close>, \<open>purity_metric a a\<close> is 1; for the
  empty sequence it is 0.
\<close>

theorem C9_purity_self_amended:
  "purity_metric a a = (if a = [] then 0 else 1)"
  by (rule purity_metric_self)

text \<open>
  The amended statement at \<open>a = [E1, E2, E1]\<close>.
\<close>

theorem C9_purity_self_amended_witness:
  "purity_metric [''E1'', ''E2'', ''E1''] [''E1'', ''E2'', ''E1''] = 1"
  using C9_purity_self_amended [of "[''E1'', ''E2'', ''E1'']"] by simp

subsection \<open>Claim C10\<close>

text \<open>
  C10. \<open>collapse_pure_clusters\<close> returns a merged prediction of the length of \<open>pred\<close> that
  is a relabelling of \<open>pred\<close> label by label: there is a function \<open>f\<close> on labels with
  \<open>merged_pred = map f pred\<close>, so two positions with the same predicted label carry the same
  merged label and collapsing never splits a predicted cluster.
\<close>

theorem C10_relabelling_coarsens:
  "\<exists>merged_pred pure_coverage f.
      collapse_pure_clusters truth pred = Inr (merged_pred, pure_coverage)
      \<and> merged_pred = map f pred
      \<and> length merged_pred = length pred
      \<and> (\<forall>i<length pred. \<forall>j<length pred.
            pred ! i = pred ! j \<longrightarrow> merged_pred ! i = merged_pred ! j)"
proof -
  let ?merged = "map (relabel truth pred) pred"
  have "\<forall>i<length pred. \<forall>j<length pred. pred ! i = pred ! j \<longrightarrow> ?merged ! i = ?merged ! j"
    by simp
  moreover have "length ?merged = length pred" by simp
  ultimately show ?thesis
    unfolding collapse_pure_clusters_eq by blast
qed

text \<open>
  The relabelling at \<open>truth = [A, A, B, B, B]\<close>, \<open>pred = [X, Y, X, Y, Z]\<close>: positions 0 and 2
  share a label before and after, and so do positions 1 and 3.
\<close>

theorem C10_relabelling_coarsens_witness:
  "\<exists>merged_pred pure_coverage.
      collapse_pure_clusters [''A'', ''A'', ''B'', ''B'', ''B''] [''X'', ''Y'', ''X'', ''Y'', ''Z'']
        = Inr (merged_pred, pure_coverage)
      \<and> length merged_pred = 5
      \<and> merged_pred ! 0 = merged_pred ! 2 \<and> merged_pred ! 1 = merged_pred ! 3"
  using C10_relabelling_coarsens
    [of "[''A'', ''A'', ''B'', ''B'', ''B'']" "[''X'', ''Y'', ''X'', ''Y'', ''Z'']"]
  by fastforce

end
